theory Spec2Isabelle
  imports Complex_Main "HOL-Library.Log_Nat"
begin

section \<open>The scrolling environment of \<open>src/components/World/Environment.tsx\<close>\<close>

text \<open>
  The host code computes with IEEE 754 binary64 numbers (JavaScript) and keeps the particle
  data in binary32 arrays (\<^verbatim>\<open>Float32Array\<close>). Numbers are modelled as \<^typ>\<open>real\<close>, and
  the rounding of an operation is the function \<open>fl64\<close> or \<open>fl32\<close> applied to its exact
  result. \<open>positions\<close>, \<open>randoms\<close> and \<open>separators\<close> carry the rounding of every operation.
  The frame callbacks \<open>MovingGrid_useFrame\<close> and \<open>RetroSun_useFrame\<close> state the equations of
  the source over exact reals; \<open>MovingGrid_useFrame_ieee\<close> is the moving grid's callback
  with each binary64 rounding written out, for the bounds that depend on it. The vertex
  shader runs on the GPU, whose arithmetic GLSL fixes only up to a precision;
  \<open>vertex_main\<close> is its formula over exact reals. Infinities and NaN are not modelled.
\<close>

subsection \<open>IEEE 754 rounding\<close>

text \<open>
  Round to the nearest integer, ties to even.
\<close>

definition rne :: "real \<Rightarrow> int" where
  "rne x =
     (let f = \<lfloor>x\<rfloor>; d = x - of_int f
      in if d < 1 / 2 then f
         else if 1 / 2 < d then f + 1
         else if even f then f else f + 1)"

text \<open>
  The binary exponent of a non-zero number: \<open>2 powi expo x \<le> \<bar>x\<bar> < 2 powi (expo x + 1)\<close>.
\<close>

definition expo :: "real \<Rightarrow> int" where
  "expo x =
     (let a = \<bar>x\<bar>
      in if a = 0 then 0
         else if 1 \<le> a then bitlen \<lfloor>a\<rfloor> - 1
         else - bitlen (\<lceil>1 / a\<rceil> - 1))"

text \<open>
  A format with \<open>p\<close> significant bits whose smallest positive (subnormal) number is
  \<open>2 powi emin\<close>: near \<open>x\<close> its numbers are the multiples of \<open>2 powi ulp_exp p emin x\<close>, and
  \<open>fl p emin x\<close> is the nearest of them, ties to even (the default rounding of IEEE 754).
  The exponent is not bounded above: overflow to infinity is left out.
\<close>

definition ulp_exp :: "nat \<Rightarrow> int \<Rightarrow> real \<Rightarrow> int" where
  "ulp_exp p emin x = max (expo x - int p + 1) emin"

definition fl :: "nat \<Rightarrow> int \<Rightarrow> real \<Rightarrow> real" where
  "fl p emin x =
     (let u = ulp_exp p emin x
      in of_int (rne (x / 2 powi u)) * 2 powi u)"

text \<open>binary64, a JavaScript number.\<close>

definition fl64 :: "real \<Rightarrow> real" where
  "fl64 = fl 53 (- 1074)"

text \<open>binary32, an element of a \<^verbatim>\<open>Float32Array\<close>.\<close>

definition fl32 :: "real \<Rightarrow> real" where
  "fl32 = fl 24 (- 149)"

subsection \<open>The two remainder operators\<close>

text \<open>
  GLSL \<^verbatim>\<open>mod(x, y)\<close> is defined by the language as \<^verbatim>\<open>x - y * floor(x / y)\<close>.
\<close>

definition glsl_mod :: "real \<Rightarrow> real \<Rightarrow> real" where
  "glsl_mod x y = x - y * of_int \<lfloor>x / y\<rfloor>"

text \<open>
  JavaScript \<^verbatim>\<open>a % b\<close> is the truncating remainder: the quotient is rounded towards
  zero, so the result has the sign of the dividend. (For \<^verbatim>\<open>b = 0\<close> JavaScript yields NaN;
  the only divisor in the source is the constant \<^verbatim>\<open>cellSize = 10\<close>.)
\<close>

definition js_rem :: "real \<Rightarrow> real \<Rightarrow> real" where
  "js_rem a b = a - b * of_int (if 0 \<le> a / b then \<lfloor>a / b\<rfloor> else \<lceil>a / b\<rceil>)"

subsection \<open>StarField\<close>

text \<open>\<^verbatim>\<open>const count = 4000;\<close>\<close>

definition count :: nat where
  "count = 4000"

text \<open>
  \<^verbatim>\<open>Math.random()\<close> is a stream of draws: \<open>rnd k\<close> is the value of the \<open>k\<close>-th call
  since the component was created. The first \<^verbatim>\<open>useMemo\<close> fills \<^verbatim>\<open>pos\<close>, a
  \<^verbatim>\<open>Float32Array(count * 3)\<close> (initially all zero), with three draws per particle:
  each expression is evaluated in binary64, one rounding per operation, and the store
  rounds the result to binary32. \<open>positions_loop rnd n i pos\<close> runs the \<open>n\<close> remaining
  iterations from index \<open>i\<close>; a typed-array store outside the bounds is ignored by
  JavaScript, as \<open>list_update\<close> does.
\<close>

primrec positions_loop :: "(nat \<Rightarrow> real) \<Rightarrow> nat \<Rightarrow> nat \<Rightarrow> real list \<Rightarrow> real list" where
  "positions_loop rnd 0 i pos = pos"
| "positions_loop rnd (Suc n) i pos =
     positions_loop rnd n (Suc i)
       (pos[i * 3 := fl32 (fl64 (fl64 (rnd (3 * i) - 0.5) * 600)),
            i * 3 + 1 := fl32 (fl64 (fl64 (rnd (3 * i + 1) - 0.5) * 400)),
            i * 3 + 2 := fl32 (fl64 (- rnd (3 * i + 2) * 600))])"

definition positions :: "(nat \<Rightarrow> real) \<Rightarrow> real list" where
  "positions rnd = positions_loop rnd count 0 (replicate (count * 3) 0)"

text \<open>
  The second \<^verbatim>\<open>useMemo\<close> fills \<^verbatim>\<open>r\<close>, a \<^verbatim>\<open>Float32Array(count)\<close>, with the draws that
  follow the \<open>3 * count\<close> draws of \<open>positions\<close>; the store rounds each draw to binary32.
\<close>

primrec randoms_loop :: "(nat \<Rightarrow> real) \<Rightarrow> nat \<Rightarrow> nat \<Rightarrow> real list \<Rightarrow> real list" where
  "randoms_loop rnd 0 i r = r"
| "randoms_loop rnd (Suc n) i r =
     randoms_loop rnd n (Suc i) (r[i := fl32 (rnd (3 * count + i))])"

definition randoms :: "(nat \<Rightarrow> real) \<Rightarrow> real list" where
  "randoms rnd = randoms_loop rnd count 0 (replicate count 0)"

text \<open>
  The uniforms of the shader material (\<^verbatim>\<open>uColor\<close> is a constant colour and plays no part
  in the geometry).
\<close>

record uniforms =
  uTime :: real
  uSpeed :: real

text \<open>
  The component: its two buffer attributes and \<^verbatim>\<open>materialRef.current\<close>, which is
  \<^verbatim>\<open>null\<close> (\<open>None\<close>) until the material is mounted and then gives access to the
  material's uniforms.
\<close>

record StarField_state =
  attributes_position :: "real list"
  attributes_aRandom :: "real list"
  materialRef :: "uniforms option"

definition StarField :: "(nat \<Rightarrow> real) \<Rightarrow> StarField_state" where
  "StarField rnd =
     \<lparr>attributes_position = positions rnd,
      attributes_aRandom = randoms rnd,
      materialRef = Some \<lparr>uTime = 0, uSpeed = 0\<rparr>\<rparr>"

text \<open>
  The \<^verbatim>\<open>useFrame\<close> callback of \<^verbatim>\<open>StarField\<close>, with the store's \<^verbatim>\<open>speed\<close> and the
  clock's \<^verbatim>\<open>elapsedTime\<close> as inputs.
\<close>

definition StarField_useFrame :: "real \<Rightarrow> real \<Rightarrow> StarField_state \<Rightarrow> StarField_state" where
  "StarField_useFrame speed elapsedTime st =
     (case materialRef st of
        None \<Rightarrow> st
      | Some u \<Rightarrow>
          st\<lparr>materialRef :=
               Some (u\<lparr>uTime := elapsedTime, uSpeed := (if speed > 0 then speed else 5.0)\<rparr>)\<rparr>)"

record vec3 =
  vx :: real
  vy :: real
  vz :: real

text \<open>
  The \<^verbatim>\<open>position\<close> attribute of vertex \<open>i\<close> (\<^verbatim>\<open>itemSize = 3\<close>).
\<close>

definition position :: "real list \<Rightarrow> nat \<Rightarrow> vec3" where
  "position arr i = \<lparr>vx = arr ! (i * 3), vy = arr ! (i * 3 + 1), vz = arr ! (i * 3 + 2)\<rparr>"

text \<open>
  The vertex shader's \<^verbatim>\<open>main\<close>, up to the value of \<^verbatim>\<open>pos\<close> that is handed to the
  model-view and projection matrices, over exact reals. (Those matrices belong to the
  camera; point size and alpha are computed from \<^verbatim>\<open>pos\<close> afterwards and do not change it.)
\<close>

definition vertex_main :: "uniforms \<Rightarrow> vec3 \<Rightarrow> vec3" where
  "vertex_main u p =
     (let pos = p;
          zOffset = uTime u * uSpeed u;
          pos = pos\<lparr>vz := vz pos + zOffset\<rparr>;
          range_z = 700.0;
          pos = pos\<lparr>vz := glsl_mod (vz pos) range_z - 600.0\<rparr>
      in if \<bar>vx pos\<bar> < 20.0 \<and> vy pos > - 10.0 \<and> vy pos < 30.0
         then pos\<lparr>vy := vy pos + 50.0\<rparr>
         else pos)"

subsection \<open>LaneGuides\<close>

text \<open>
  \<^verbatim>\<open>LANE_WIDTH\<close> is imported from \<^verbatim>\<open>../../types\<close>; it is a parameter here. The store's
  \<^verbatim>\<open>laneCount\<close> is an integer. \<open>separators_loop\<close> is the \<^verbatim>\<open>for\<close> loop of the
  \<^verbatim>\<open>useMemo\<close>, from the current \<open>i\<close> with the lines pushed so far. Every product and sum
  is a binary64 operation and is rounded.
\<close>

function separators_loop :: "real \<Rightarrow> int \<Rightarrow> real \<Rightarrow> int \<Rightarrow> real list \<Rightarrow> real list" where
  "separators_loop LANE_WIDTH laneCount startX i lines =
     (if i \<le> laneCount
      then separators_loop LANE_WIDTH laneCount startX (i + 1)
             (lines @ [fl64 (startX + fl64 (of_int i * LANE_WIDTH))])
      else lines)"
  by pat_completeness auto
termination
  by (relation "measure (\<lambda>(LANE_WIDTH, laneCount, startX, i, lines). nat (laneCount + 1 - i))") auto

declare separators_loop.simps [simp del]

definition separators :: "real \<Rightarrow> int \<Rightarrow> real list" where
  "separators LANE_WIDTH laneCount =
     (let startX = fl64 (- fl64 (of_int laneCount * LANE_WIDTH) / 2)
      in separators_loop LANE_WIDTH laneCount startX 0 [])"

subsection \<open>RetroSun\<close>

text \<open>
  The two components of the group's transform that the frame callback writes.
\<close>

record group =
  position_y :: real
  rotation_y :: real

text \<open>
  \<^verbatim>\<open>matRef.current\<close> gives access to the material's \<^verbatim>\<open>uTime\<close> uniform and
  \<^verbatim>\<open>sunGroupRef.current\<close> to the group; each is \<^verbatim>\<open>null\<close> (\<open>None\<close>) until mounted.
\<close>

record RetroSun_state =
  matRef :: "real option"
  sunGroupRef :: "group option"

definition RetroSun :: RetroSun_state where
  "RetroSun = \<lparr>matRef = Some 0, sunGroupRef = Some \<lparr>position_y = 30, rotation_y = 0\<rparr>\<rparr>"

definition RetroSun_useFrame :: "real \<Rightarrow> RetroSun_state \<Rightarrow> RetroSun_state" where
  "RetroSun_useFrame elapsedTime st =
     (let st = (case matRef st of
                  None \<Rightarrow> st
                | Some _ \<Rightarrow> st\<lparr>matRef := Some elapsedTime\<rparr>)
      in case sunGroupRef st of
           None \<Rightarrow> st
         | Some g \<Rightarrow>
             st\<lparr>sunGroupRef :=
                  Some (g\<lparr>position_y := 30 + sin (elapsedTime * 0.2) * 1.0,
                          rotation_y := elapsedTime * 0.05\<rparr>)\<rparr>)"

subsection \<open>MovingGrid\<close>

text \<open>
  \<^verbatim>\<open>meshRef.current\<close> is \<^verbatim>\<open>null\<close> (\<open>None\<close>) or the mesh, of which the callback writes
  \<^verbatim>\<open>position.z\<close>; \<^verbatim>\<open>offsetRef.current\<close> is the accumulator.
\<close>

record MovingGrid_state =
  meshRef :: "real option"
  offsetRef :: real

text \<open>\<^verbatim>\<open>useRef(0)\<close>, and the mesh is created at \<^verbatim>\<open>position={[0, -0.2, -100]}\<close>.\<close>

definition MovingGrid :: MovingGrid_state where
  "MovingGrid = \<lparr>meshRef = Some (- 100), offsetRef = 0\<rparr>"

text \<open>\<^verbatim>\<open>const activeSpeed = speed > 0 ? speed : 5;\<close>\<close>

definition activeSpeed :: "real \<Rightarrow> real" where
  "activeSpeed speed = (if speed > 0 then speed else 5)"

definition MovingGrid_useFrame :: "real \<Rightarrow> real \<Rightarrow> MovingGrid_state \<Rightarrow> MovingGrid_state" where
  "MovingGrid_useFrame speed delta st =
     (case meshRef st of
        None \<Rightarrow> st
      | Some _ \<Rightarrow>
          (let offset = offsetRef st + activeSpeed speed * delta;
               cellSize = 10;
               zPos = - 100 + js_rem offset cellSize
           in st\<lparr>offsetRef := offset, meshRef := Some zPos\<rparr>))"

text \<open>
  The frame driver calls the callback once per frame; a run is the list of the
  \<open>(speed, delta)\<close> pairs of its frames.
\<close>

fun MovingGrid_frames :: "MovingGrid_state \<Rightarrow> (real \<times> real) list \<Rightarrow> MovingGrid_state" where
  "MovingGrid_frames st [] = st"
| "MovingGrid_frames st ((speed, delta) # fs) =
     MovingGrid_frames (MovingGrid_useFrame speed delta st) fs"

text \<open>
  The same callback with the rounding of its binary64 operations written out: the
  product, the sum accumulated into \<^verbatim>\<open>offsetRef.current\<close>, and the sum that gives \<^verbatim>\<open>zPos\<close>.
  The remainder \<^verbatim>\<open>%\<close> of two binary64 numbers is always exact.
\<close>

definition MovingGrid_useFrame_ieee :: "real \<Rightarrow> real \<Rightarrow> MovingGrid_state \<Rightarrow> MovingGrid_state" where
  "MovingGrid_useFrame_ieee speed delta st =
     (case meshRef st of
        None \<Rightarrow> st
      | Some _ \<Rightarrow>
          (let offset = fl64 (offsetRef st + fl64 (activeSpeed speed * delta));
               cellSize = 10;
               zPos = fl64 (- 100 + js_rem offset cellSize)
           in st\<lparr>offsetRef := offset, meshRef := Some zPos\<rparr>))"

fun MovingGrid_frames_ieee :: "MovingGrid_state \<Rightarrow> (real \<times> real) list \<Rightarrow> MovingGrid_state" where
  "MovingGrid_frames_ieee st [] = st"
| "MovingGrid_frames_ieee st ((speed, delta) # fs) =
     MovingGrid_frames_ieee (MovingGrid_useFrame_ieee speed delta st) fs"

section \<open>Properties\<close>

subsection \<open>Rounding\<close>

lemma rne_of_int [simp]: "rne (of_int k) = k"
  by (simp add: rne_def)

lemma rne_mono: "x \<le> y \<Longrightarrow> rne x \<le> rne y"
proof -
  assume xy: "x \<le> y"
  have fx: "\<lfloor>x\<rfloor> \<le> \<lfloor>y\<rfloor>" using xy by (rule floor_mono)
  show ?thesis
  proof (cases "\<lfloor>x\<rfloor> = \<lfloor>y\<rfloor>")
    case True
    with xy show ?thesis by (auto simp add: rne_def Let_def)
  next
    case False
    with fx have "\<lfloor>x\<rfloor> + 1 \<le> \<lfloor>y\<rfloor>" by simp
    moreover have "rne x \<le> \<lfloor>x\<rfloor> + 1" by (simp add: rne_def Let_def)
    moreover have "\<lfloor>y\<rfloor> \<le> rne y" by (simp add: rne_def Let_def)
    ultimately show ?thesis by linarith
  qed
qed

lemma rne_minus: "rne (- x) = - rne x"
proof (cases "x \<in> \<int>")
  case True
  then obtain k where "x = of_int k" by (auto elim: Ints_cases)
  then have "- x = of_int (- k)" by simp
  then show ?thesis using \<open>x = of_int k\<close> by (simp only: rne_of_int)
next
  case False
  then have ne: "x \<noteq> of_int \<lfloor>x\<rfloor>" by (metis Ints_of_int)
  then have f: "\<lfloor>- x\<rfloor> = - \<lfloor>x\<rfloor> - 1"
    by (simp add: floor_minus ceiling_altdef)
  have ev: "even (- \<lfloor>x\<rfloor> - 1) = odd \<lfloor>x\<rfloor>" by simp
  have lo: "of_int \<lfloor>x\<rfloor> \<le> x" by simp
  from ne lo show ?thesis
    unfolding rne_def Let_def f ev
    by (auto simp add: algebra_simps)
qed

lemma rne_eqI: "\<bar>x - of_int k\<bar> < 1 / 2 \<Longrightarrow> rne x = k"
proof -
  assume a: "\<bar>x - of_int k\<bar> < 1 / 2"
  show ?thesis
  proof (cases "of_int k \<le> x")
    case True
    with a have "\<lfloor>x\<rfloor> = k" by (simp add: floor_eq_iff; linarith)
    with a True show ?thesis by (simp add: rne_def Let_def; linarith)
  next
    case False
    with a have "\<lfloor>x\<rfloor> = k - 1" by (simp add: floor_eq_iff; linarith)
    with a False show ?thesis by (simp add: rne_def Let_def; linarith)
  qed
qed

lemma expo_bounds:
  assumes "x \<noteq> 0"
  shows "2 powi expo x \<le> \<bar>x\<bar>" and "\<bar>x\<bar> < 2 powi (expo x + 1)"
proof -
  let ?a = "\<bar>x\<bar>"
  from assms have pos: "0 < ?a" by simp
  have "2 powi expo x \<le> ?a \<and> ?a < 2 powi (expo x + 1)"
  proof (cases "1 \<le> ?a")
    case True
    let ?n = "\<lfloor>?a\<rfloor>"
    from True have n: "0 < ?n" by simp
    have e: "expo x = bitlen ?n - 1"
      using True pos by (simp add: expo_def Let_def)
    from n have bl: "0 < bitlen ?n" by (simp add: bitlen_alt_def)
    from bitlen_bounds [OF n] have lo: "2 ^ nat (bitlen ?n - 1) \<le> ?n"
      and hi: "?n < 2 ^ nat (bitlen ?n)" by simp_all
    from lo have "(2::real) ^ nat (bitlen ?n - 1) \<le> of_int ?n"
      by (metis of_int_le_iff of_int_numeral of_int_power)
    also have "\<dots> \<le> ?a" by simp
    finally have 1: "2 powi expo x \<le> ?a"
      using bl by (simp add: e power_int_nonneg_exp)
    from hi have "?n + 1 \<le> 2 ^ nat (bitlen ?n)" by simp
    then have "of_int (?n + 1) \<le> (2::real) ^ nat (bitlen ?n)"
      by (metis of_int_le_iff of_int_numeral of_int_power)
    moreover have "?a < of_int (?n + 1)" by linarith
    ultimately have "?a < (2::real) ^ nat (bitlen ?n)" by linarith
    then have 2: "?a < 2 powi (expo x + 1)"
      using bl by (simp add: e power_int_nonneg_exp)
    from 1 2 show ?thesis by blast
  next
    case False
    let ?c = "\<lceil>1 / ?a\<rceil>"
    let ?k = "bitlen (?c - 1)"
    from False pos have inv: "1 < 1 / ?a" by simp
    then have c: "2 \<le> ?c" by linarith
    have e: "expo x = - ?k"
      using False pos by (simp add: expo_def Let_def)
    from c have c1: "0 < ?c - 1" by simp
    from c1 have kpos: "0 < ?k" by (simp add: bitlen_alt_def)
    from bitlen_bounds [OF c1] have lo: "2 ^ nat (?k - 1) \<le> ?c - 1"
      and hi: "?c - 1 < 2 ^ nat ?k" by simp_all
    from hi have "?c \<le> 2 ^ nat ?k" by simp
    then have "of_int ?c \<le> (2::real) ^ nat ?k"
      by (metis of_int_le_iff of_int_numeral of_int_power)
    moreover have "1 / ?a \<le> of_int ?c" by simp
    ultimately have "1 / ?a \<le> (2::real) ^ nat ?k" by linarith
    with pos have "1 / 2 ^ nat ?k \<le> ?a"
      by (simp add: field_simps)
    then have 1: "2 powi expo x \<le> ?a"
      using kpos by (simp add: e power_int_minus_divide power_int_nonneg_exp)
    from lo have "of_int (?c - 1) \<ge> (2::real) ^ nat (?k - 1)"
      by (metis of_int_le_iff of_int_numeral of_int_power)
    moreover have "of_int (?c - 1) < 1 / ?a" by linarith
    ultimately have "(2::real) ^ nat (?k - 1) < 1 / ?a" by linarith
    with pos have "?a < 1 / 2 ^ nat (?k - 1)"
      by (simp add: field_simps)
    moreover have "expo x + 1 = - (?k - 1)" by (simp add: e)
    ultimately have 2: "?a < 2 powi (expo x + 1)"
      using kpos by (simp only: power_int_minus_divide) (simp add: power_int_nonneg_exp)
    from 1 2 show ?thesis by blast
  qed
  then show "2 powi expo x \<le> \<bar>x\<bar>" and "\<bar>x\<bar> < 2 powi (expo x + 1)"
    by blast+
qed

lemma pow2_pos [simp]: "0 < (2::real) powi n"
  by (simp add: power_int_def)

lemma pow2_le: "m \<le> n \<Longrightarrow> (2::real) powi m \<le> 2 powi n"
  by (rule power_int_increasing) simp_all

lemma pow2_less_cancel: "(2::real) powi m < 2 powi n \<Longrightarrow> m < n"
proof (rule ccontr)
  assume a: "(2::real) powi m < 2 powi n" and "\<not> m < n"
  then have "n \<le> m" by simp
  then have "(2::real) powi n \<le> 2 powi m" by (rule pow2_le)
  with a show False by simp
qed

lemma pow2_split: "u \<le> k \<Longrightarrow> (2::real) powi k = of_int (2 ^ nat (k - u)) * 2 powi u"
proof -
  assume uk: "u \<le> k"
  define d where "d = nat (k - u)"
  from uk have "k = int d + u" by (simp add: d_def)
  then have "(2::real) powi k = 2 powi (int d + u)" by simp
  also have "\<dots> = 2 powi int d * 2 powi u"
    by (rule power_int_add) simp
  also have "(2::real) powi int d = 2 ^ d" by (rule power_int_of_nat)
  finally show ?thesis by (simp add: d_def)
qed

lemma expo_minus [simp]: "expo (- x) = expo x"
  by (simp add: expo_def)

lemma expo_less: "x \<noteq> 0 \<Longrightarrow> \<bar>x\<bar> < 2 powi n \<Longrightarrow> expo x < n"
  using expo_bounds(1) [of x] by (intro pow2_less_cancel) linarith

lemma expo_ge: "2 powi n \<le> \<bar>x\<bar> \<Longrightarrow> n \<le> expo x"
proof -
  assume a: "2 powi n \<le> \<bar>x\<bar>"
  have "0 < (2::real) powi n" by simp
  with a have "0 < \<bar>x\<bar>" by linarith
  then have "x \<noteq> 0" by simp
  from expo_bounds(2) [OF this] a have "(2::real) powi n < 2 powi (expo x + 1)" by linarith
  then have "n < expo x + 1" by (rule pow2_less_cancel)
  then show ?thesis by simp
qed

lemma expo_eqI: "2 powi e \<le> \<bar>x\<bar> \<Longrightarrow> \<bar>x\<bar> < 2 powi (e + 1) \<Longrightarrow> expo x = e"
proof -
  assume lo: "2 powi e \<le> \<bar>x\<bar>" and hi: "\<bar>x\<bar> < 2 powi (e + 1)"
  have "0 < (2::real) powi e" by simp
  with lo have "0 < \<bar>x\<bar>" by linarith
  then have "x \<noteq> 0" by simp
  from expo_less [OF this hi] expo_ge [OF lo] show ?thesis by simp
qed

lemma expo_mono: "x \<noteq> 0 \<Longrightarrow> \<bar>x\<bar> \<le> \<bar>y\<bar> \<Longrightarrow> expo x \<le> expo y"
  using expo_bounds(1) [of x] by (intro expo_ge) linarith

lemma grid_le:
  assumes "x \<le> of_int k * (2::real) powi u"
  shows "of_int (rne (x / 2 powi u)) * (2::real) powi u \<le> of_int k * 2 powi u"
proof -
  from assms have "x / 2 powi u \<le> of_int k"
    by (simp add: pos_divide_le_eq)
  then have "rne (x / 2 powi u) \<le> rne (of_int k)" by (rule rne_mono)
  then show ?thesis by simp
qed

lemma grid_ge:
  assumes "of_int k * (2::real) powi u \<le> x"
  shows "of_int k * (2::real) powi u \<le> of_int (rne (x / 2 powi u)) * 2 powi u"
proof -
  from assms have "of_int k \<le> x / 2 powi u"
    by (simp add: pos_le_divide_eq)
  then have "rne (of_int k) \<le> rne (x / 2 powi u)" by (rule rne_mono)
  then show ?thesis by simp
qed

lemma fl_0 [simp]: "fl p emin 0 = 0"
  by (simp add: fl_def rne_def)

lemma fl_minus: "fl p emin (- x) = - fl p emin x"
  by (simp add: fl_def Let_def ulp_exp_def rne_minus)

lemma fl_nonneg: "0 \<le> x \<Longrightarrow> 0 \<le> fl p emin x"
  using grid_ge [of 0 "ulp_exp p emin x" x] by (simp add: fl_def Let_def)

lemma fl_exact:
  assumes m: "\<bar>m\<bar> < 2 ^ p" and k: "emin \<le> k"
  shows "fl p emin (of_int m * 2 powi k) = of_int m * 2 powi k"
proof (cases "m = 0")
  case True
  then show ?thesis by simp
next
  case False
  let ?x = "of_int m * (2::real) powi k"
  define u where "u = ulp_exp p emin ?x"
  from False have nz: "?x \<noteq> 0" by simp
  from m have "of_int \<bar>m\<bar> < (2::real) ^ p"
    by (metis of_int_less_iff of_int_numeral of_int_power)
  then have "\<bar>?x\<bar> < 2 ^ p * 2 powi k"
    by (simp add: abs_mult)
  also have "\<dots> = 2 powi (int p + k)"
    by (simp add: power_int_add)
  finally have "expo ?x < int p + k" by (rule expo_less [OF nz])
  with k have uk: "u \<le> k" by (simp add: u_def ulp_exp_def)
  have x: "?x = of_int (m * 2 ^ nat (k - u)) * 2 powi u"
    by (simp add: pow2_split [OF uk])
  have "of_int (m * 2 ^ nat (k - u)) * 2 powi u / 2 powi u = (of_int (m * 2 ^ nat (k - u)) :: real)"
    by simp
  then have "?x / 2 powi u = of_int (m * 2 ^ nat (k - u))"
    by (simp only: x [symmetric])
  then have "rne (?x / 2 powi u) = m * 2 ^ nat (k - u)"
    by (simp only: rne_of_int)
  then have "fl p emin ?x = of_int (m * 2 ^ nat (k - u)) * 2 powi u"
    by (simp only: fl_def Let_def u_def)
  also note x [symmetric]
  finally show ?thesis .
qed

lemma fl_mono_pos:
  assumes "0 < x" and "x \<le> y" and "0 < p"
  shows "fl p emin x \<le> fl p emin y"
proof -
  let ?ux = "ulp_exp p emin x" and ?uy = "ulp_exp p emin y"
  from assms have y: "0 < y" by simp
  from assms have "expo x \<le> expo y" by (intro expo_mono) simp_all
  then have le: "?ux \<le> ?uy" by (simp add: ulp_exp_def)
  show ?thesis
  proof (cases "?ux = ?uy")
    case True
    from assms(2) have "x / 2 powi ?uy \<le> y / 2 powi ?uy"
      by (simp add: divide_right_mono)
    then have "rne (x / 2 powi ?uy) \<le> rne (y / 2 powi ?uy)" by (rule rne_mono)
    then show ?thesis by (simp add: fl_def Let_def True)
  next
    case False
    with le have lt: "?ux < ?uy" by simp
    then have uy: "?uy = expo y - int p + 1" and exy: "expo x < expo y"
      by (auto simp add: ulp_exp_def max_def split: if_splits)
    let ?G = "(2::real) powi expo y"
    from lt uy have ux: "?ux \<le> expo y" using assms(3) by simp
    from uy have uy': "?uy \<le> expo y" using assms(3) by simp
    have Gx: "?G = of_int (2 ^ nat (expo y - ?ux)) * 2 powi ?ux" by (rule pow2_split [OF ux])
    have Gy: "?G = of_int (2 ^ nat (expo y - ?uy)) * 2 powi ?uy" by (rule pow2_split [OF uy'])
    from assms(1) have "x < 2 powi (expo x + 1)"
      using expo_bounds(2) [of x] by simp
    also from exy have "\<dots> \<le> ?G" by (intro pow2_le) simp
    finally have "x \<le> of_int (2 ^ nat (expo y - ?ux)) * 2 powi ?ux"
      by (simp only: Gx [symmetric])
    from grid_le [OF this] have 1: "fl p emin x \<le> ?G"
      by (simp only: fl_def Let_def Gx [symmetric])
    from y have "?G \<le> y" using expo_bounds(1) [of y] by simp
    then have "of_int (2 ^ nat (expo y - ?uy)) * 2 powi ?uy \<le> y"
      by (simp only: Gy [symmetric])
    from grid_ge [OF this] have 2: "?G \<le> fl p emin y"
      by (simp only: fl_def Let_def Gy [symmetric])
    from 1 2 show ?thesis by simp
  qed
qed

lemma fl_mono:
  assumes "x \<le> y" and "0 < p"
  shows "fl p emin x \<le> fl p emin y"
proof -
  consider "0 < x" | "x \<le> 0" "0 \<le> y" | "y < 0" by linarith
  then show ?thesis
  proof cases
    case 1
    with assms show ?thesis by (simp add: fl_mono_pos)
  next
    case 2
    then have "0 \<le> - x" by simp
    then have "0 \<le> fl p emin (- x)" by (rule fl_nonneg)
    then have "fl p emin x \<le> 0" by (simp add: fl_minus)
    moreover from 2 have "0 \<le> fl p emin y" by (simp add: fl_nonneg)
    ultimately show ?thesis by simp
  next
    case 3
    with assms have "0 < - y" and "- y \<le> - x" by simp_all
    then have "fl p emin (- y) \<le> fl p emin (- x)"
      using assms(2) by (rule fl_mono_pos)
    then show ?thesis by (simp add: fl_minus)
  qed
qed

lemma rne_bound:
  assumes "\<bar>x\<bar> \<le> of_int n"
  shows "\<bar>rne x\<bar> \<le> n"
proof -
  from assms have "x \<le> of_int n" and "of_int (- n) \<le> x" by simp_all
  then have "rne x \<le> rne (of_int n)" and "rne (of_int (- n)) \<le> rne x"
    by (simp_all only: rne_mono)
  then have "rne x \<le> n" and "- n \<le> rne x" by (simp_all only: rne_of_int)
  then show ?thesis by simp
qed

lemma fl_idem:
  assumes "0 < p"
  shows "fl p emin (fl p emin x) = fl p emin x"
proof (cases "x = 0")
  case True
  then show ?thesis by simp
next
  case False
  define u where "u = ulp_exp p emin x"
  define r where "r = rne (x / 2 powi u)"
  have flx: "fl p emin x = of_int r * 2 powi u"
    by (simp add: fl_def Let_def u_def r_def)
  have eu: "emin \<le> u" and xu: "expo x + 1 \<le> u + int p"
    by (simp_all add: u_def ulp_exp_def)
  from False have "\<bar>x\<bar> < 2 powi (expo x + 1)" by (rule expo_bounds(2))
  also from xu have "\<dots> \<le> 2 powi (u + int p)" by (rule pow2_le)
  also have "\<dots> = 2 powi u * 2 ^ p" by (simp add: power_int_add)
  finally have "\<bar>x\<bar> / 2 powi u \<le> 2 ^ p"
    by (simp add: pos_divide_le_eq mult.commute)
  then have "\<bar>x / 2 powi u\<bar> \<le> of_int (2 ^ p)" by simp
  then have rb: "\<bar>r\<bar> \<le> 2 ^ p" unfolding r_def by (rule rne_bound)
  show ?thesis
  proof (cases "\<bar>r\<bar> < 2 ^ p")
    case True
    from fl_exact [OF True eu] show ?thesis by (simp only: flx)
  next
    case False
    with rb have "\<bar>r\<bar> = 2 ^ p" by simp
    then consider "r = 2 ^ p" | "r = - (2 ^ p)" by (auto simp add: abs_if split: if_splits)
    then obtain s :: int where s: "\<bar>s\<bar> = 1" and r: "r = s * 2 ^ p"
      by cases (auto intro: that [of 1] that [of "- 1"])
    have "of_int r * (2::real) powi u = of_int s * (2 ^ p * 2 powi u)"
      by (simp add: r)
    also have "(2::real) ^ p * 2 powi u = 2 powi (int p + u)"
      by (simp add: power_int_add)
    finally have flx': "fl p emin x = of_int s * 2 powi (int p + u)"
      by (simp only: flx)
    from assms have "(1::int) < 2 ^ p" by simp
    with s have sm: "\<bar>s\<bar> < 2 ^ p" by simp
    from eu have "emin \<le> int p + u" by simp
    from fl_exact [OF sm this] show ?thesis by (simp only: flx')
  qed
qed

lemma fl_eq_rne:
  assumes "2 powi e \<le> \<bar>x\<bar>" and "\<bar>x\<bar> < 2 powi (e + 1)"
  shows "fl p emin x
           = of_int (rne (x / 2 powi max (e - int p + 1) emin)) * 2 powi max (e - int p + 1) emin"
  by (simp add: fl_def Let_def ulp_exp_def expo_eqI [OF assms])

lemma fl64_mono: "x \<le> y \<Longrightarrow> fl64 x \<le> fl64 y"
  by (simp add: fl64_def fl_mono)

lemma fl32_mono: "x \<le> y \<Longrightarrow> fl32 x \<le> fl32 y"
  by (simp add: fl32_def fl_mono)

lemma fl64_exact: "\<bar>m\<bar> < 2 ^ 53 \<Longrightarrow> - 1074 \<le> k \<Longrightarrow> fl64 (of_int m * 2 powi k) = of_int m * 2 powi k"
  unfolding fl64_def by (rule fl_exact)

lemma fl32_exact: "\<bar>m\<bar> < 2 ^ 24 \<Longrightarrow> - 149 \<le> k \<Longrightarrow> fl32 (of_int m * 2 powi k) = of_int m * 2 powi k"
  unfolding fl32_def by (rule fl_exact)

lemma fl64_int: "\<bar>m\<bar> < 2 ^ 53 \<Longrightarrow> fl64 (of_int m) = of_int m"
  using fl64_exact [of m 0] by simp

lemma fl32_int: "\<bar>m\<bar> < 2 ^ 24 \<Longrightarrow> fl32 (of_int m) = of_int m"
  using fl32_exact [of m 0] by simp

lemma fl64_idem [simp]: "fl64 (fl64 x) = fl64 x"
  by (simp add: fl64_def fl_idem)

lemma fl64_consts:
  "fl64 0 = 0" "fl64 (- 100) = - 100" "fl64 (- 90) = - 90" "fl64 10 = 10" "fl64 5 = 5"
  "fl64 (- (1 / 2)) = - (1 / 2)" "fl64 (1 / 2) = 1 / 2"
  "fl64 300 = 300" "fl64 (- 300) = - 300" "fl64 200 = 200" "fl64 (- 200) = - 200"
  "fl64 (- 600) = - 600"
  using fl64_int [of 0] fl64_int [of "- 100"] fl64_int [of "- 90"] fl64_int [of 10] fl64_int [of 5]
    fl64_exact [of "- 1" "- 1"] fl64_exact [of 1 "- 1"]
    fl64_int [of 300] fl64_int [of "- 300"] fl64_int [of 200] fl64_int [of "- 200"]
    fl64_int [of "- 600"]
  by simp_all

lemma fl32_consts:
  "fl32 0 = 0" "fl32 1 = 1"
  "fl32 300 = 300" "fl32 (- 300) = - 300" "fl32 200 = 200" "fl32 (- 200) = - 200"
  "fl32 (- 600) = - 600"
  using fl32_int [of 0] fl32_int [of 1]
    fl32_int [of 300] fl32_int [of "- 300"] fl32_int [of 200] fl32_int [of "- 200"]
    fl32_int [of "- 600"]
  by simp_all

subsection \<open>Remainders\<close>

lemma glsl_mod_range:
  assumes "0 < y"
  shows "0 \<le> glsl_mod x y" and "glsl_mod x y < y"
proof -
  have "of_int \<lfloor>x / y\<rfloor> \<le> x / y"
    by (rule of_int_floor_le)
  with assms have lo: "of_int \<lfloor>x / y\<rfloor> * y \<le> x"
    by (simp only: pos_le_divide_eq)
  have "x / y < of_int \<lfloor>x / y\<rfloor> + 1"
    by linarith
  with assms have hi: "x < (of_int \<lfloor>x / y\<rfloor> + 1) * y"
    by (simp only: pos_divide_less_eq)
  from lo show "0 \<le> glsl_mod x y"
    by (simp add: glsl_mod_def mult.commute)
  from hi show "glsl_mod x y < y"
    by (simp add: glsl_mod_def algebra_simps)
qed

subsection \<open>Star field depth\<close>

lemma vertex_main_vz:
  "vz (vertex_main u p) = glsl_mod (vz p + uTime u * uSpeed u) 700 - 600"
  by (simp add: vertex_main_def Let_def)

subsection \<open>Moving grid\<close>

lemma js_rem_nonneg:
  assumes "0 \<le> a" and "0 < b"
  shows "js_rem a b = glsl_mod a b"
  using assms by (simp add: js_rem_def glsl_mod_def)

lemma js_rem_range:
  assumes "0 \<le> a" and "0 < b"
  shows "0 \<le> js_rem a b \<and> js_rem a b < b"
  using assms glsl_mod_range [of b a] by (simp add: js_rem_nonneg)

lemma activeSpeed_pos: "0 < activeSpeed speed"
  by (simp add: activeSpeed_def)

lemma activeSpeed_fallback: "activeSpeed speed = (if speed \<le> 0 then 5 else speed)"
  by (simp add: activeSpeed_def)

lemma MovingGrid_useFrame_mounted:
  assumes "meshRef st = Some z0"
  shows "offsetRef (MovingGrid_useFrame speed delta st) = offsetRef st + activeSpeed speed * delta"
    and "meshRef (MovingGrid_useFrame speed delta st)
           = Some (- 100 + js_rem (offsetRef st + activeSpeed speed * delta) 10)"
  using assms by (simp_all add: MovingGrid_useFrame_def Let_def)

lemma MovingGrid_useFrame_unmounted:
  assumes "meshRef st = None"
  shows "MovingGrid_useFrame speed delta st = st"
  using assms by (simp add: MovingGrid_useFrame_def)

lemma MovingGrid_useFrame_offset_mono:
  assumes "0 \<le> delta"
  shows "offsetRef st \<le> offsetRef (MovingGrid_useFrame speed delta st)"
proof (cases "meshRef st")
  case None
  then show ?thesis by (simp add: MovingGrid_useFrame_unmounted)
next
  case (Some z0)
  have "0 \<le> activeSpeed speed * delta"
    using assms activeSpeed_pos [of speed] by simp
  with Some show ?thesis by (simp add: MovingGrid_useFrame_mounted)
qed

lemma MovingGrid_useFrame_keeps_mesh:
  "(meshRef (MovingGrid_useFrame speed delta st) = None) = (meshRef st = None)"
  by (cases "meshRef st") (simp_all add: MovingGrid_useFrame_def Let_def)

lemma MovingGrid_frames_offset_nonneg:
  assumes "\<forall>(speed, delta) \<in> set fs. 0 \<le> delta" and "0 \<le> offsetRef st"
  shows "0 \<le> offsetRef (MovingGrid_frames st fs)"
  using assms
proof (induction fs arbitrary: st)
  case Nil
  then show ?case by simp
next
  case (Cons f fs)
  obtain speed delta where f: "f = (speed, delta)" by (cases f)
  with Cons.prems have d: "0 \<le> delta" by simp
  from MovingGrid_useFrame_offset_mono [OF d] Cons.prems(2)
  have "0 \<le> offsetRef (MovingGrid_useFrame speed delta st)"
    by (rule order_trans [rotated])
  with Cons.IH [of "MovingGrid_useFrame speed delta st"] Cons.prems(1) f
  show ?case by simp
qed

lemma MovingGrid_frames_keeps_mesh:
  "(meshRef (MovingGrid_frames st fs) = None) = (meshRef st = None)"
proof (induction fs arbitrary: st)
  case Nil
  then show ?case by simp
next
  case (Cons f fs)
  then show ?case
    by (cases f) (simp add: MovingGrid_useFrame_keeps_mesh)
qed

lemma MovingGrid_frames_snoc:
  "MovingGrid_frames st (fs @ [(speed, delta)])
     = MovingGrid_useFrame speed delta (MovingGrid_frames st fs)"
  by (induction fs arbitrary: st) auto

text \<open>
  C2 as stated fails: the callback never wraps the stored accumulator. One frame with
  \<open>speed = 0\<close> and \<open>delta = 3\<close> from the initial state stores 15.
\<close>

theorem C2_counterexample:
  "(0::real) \<le> 3
   \<and> offsetRef (MovingGrid_frames MovingGrid [(0, 3)]) = 15
   \<and> \<not> (0 \<le> offsetRef (MovingGrid_frames MovingGrid [(0, 3)])
          \<and> offsetRef (MovingGrid_frames MovingGrid [(0, 3)]) < 10)"
  by (simp add: MovingGrid_useFrame_def MovingGrid_def activeSpeed_def Let_def)

text \<open>
  C2, amended. After every run of frames with \<open>delta \<ge> 0\<close> and arbitrary speeds the stored
  accumulator is non-negative, and it is the value derived from it at the point of use,
  the remainder \<open>offset % 10\<close>, that lies in \<open>[0, 10)\<close>; after a non-empty run the mesh depth
  is \<open>-100\<close> plus that remainder.
\<close>

theorem C2_offset_wrapped_at_use:
  assumes "\<forall>(speed, delta) \<in> set fs. 0 \<le> delta"
  shows "0 \<le> offsetRef (MovingGrid_frames MovingGrid fs)
       \<and> 0 \<le> js_rem (offsetRef (MovingGrid_frames MovingGrid fs)) 10
       \<and> js_rem (offsetRef (MovingGrid_frames MovingGrid fs)) 10 < 10
       \<and> (fs \<noteq> [] \<longrightarrow>
            meshRef (MovingGrid_frames MovingGrid fs)
              = Some (- 100 + js_rem (offsetRef (MovingGrid_frames MovingGrid fs)) 10))"
proof -
  let ?st = "MovingGrid_frames MovingGrid fs"
  have nn: "0 \<le> offsetRef ?st"
    by (rule MovingGrid_frames_offset_nonneg [OF assms]) (simp add: MovingGrid_def)
  then have r: "0 \<le> js_rem (offsetRef ?st) 10 \<and> js_rem (offsetRef ?st) 10 < 10"
    by (simp add: js_rem_range)
  have "meshRef ?st = Some (- 100 + js_rem (offsetRef ?st) 10)" if "fs \<noteq> []"
  proof -
    from that obtain fs' speed delta where fs: "fs = fs' @ [(speed, delta)]"
      by (cases fs rule: rev_cases) auto
    let ?st' = "MovingGrid_frames MovingGrid fs'"
    have "meshRef ?st' \<noteq> None"
      by (simp add: MovingGrid_frames_keeps_mesh) (simp add: MovingGrid_def)
    then obtain z0 where m: "meshRef ?st' = Some z0" by blast
    show ?thesis
      by (simp add: fs MovingGrid_frames_snoc MovingGrid_useFrame_mounted [OF m])
  qed
  with nn r show ?thesis by blast
qed

theorem C2_offset_wrapped_at_use_witness:
  "(0::real) \<le> 3 \<and> (0::real) \<le> 1 / 2
   \<and> [(0, 3), (12, 1 / 2)] \<noteq> ([] :: (real \<times> real) list)
   \<and> 0 \<le> offsetRef (MovingGrid_frames MovingGrid [(0, 3), (12, 1 / 2)])
   \<and> js_rem (offsetRef (MovingGrid_frames MovingGrid [(0, 3), (12, 1 / 2)])) 10 < 10
   \<and> meshRef (MovingGrid_frames MovingGrid [(0, 3), (12, 1 / 2)])
        = Some (- 100 + js_rem (offsetRef (MovingGrid_frames MovingGrid [(0, 3), (12, 1 / 2)])) 10)"
proof -
  have h1: "\<forall>(speed, delta) \<in> set [(0, 3), (12, 1 / 2)]. (0::real) \<le> delta" by simp
  have h2: "[(0, 3), (12, 1 / 2)] \<noteq> ([] :: (real \<times> real) list)" by simp
  from C2_offset_wrapped_at_use [OF h1] h2 show ?thesis by simp
qed

text \<open>
  C7. A frame of the mounted grid with inputs \<open>(speed, delta)\<close> adds
  \<open>effectiveSpeed * delta\<close> to the stored offset and sets the mesh depth to \<open>-100\<close> plus the
  remainder of the new offset by 10; the source's \<^verbatim>\<open>%\<close> is the truncating remainder, which
  is the floored \<open>mod\<close> whenever the old offset and \<open>delta\<close> are non-negative. From the
  initial offset 0, one frame with \<open>speed = 0\<close> and \<open>delta = 1\<close> increases the offset by
  exactly 5 and yields the depth \<open>-95\<close>.
\<close>

theorem C7_grid_tick:
  assumes "meshRef st = Some z0"
  shows "offsetRef (MovingGrid_useFrame speed delta st)
           = offsetRef st + (if speed > 0 then speed else 5) * delta
       \<and> meshRef (MovingGrid_useFrame speed delta st)
           = Some (- 100 + js_rem (offsetRef (MovingGrid_useFrame speed delta st)) 10)
       \<and> (0 \<le> offsetRef st \<and> 0 \<le> delta \<longrightarrow>
            meshRef (MovingGrid_useFrame speed delta st)
              = Some (- 100 + (offsetRef (MovingGrid_useFrame speed delta st)
                   - 10 * of_int \<lfloor>offsetRef (MovingGrid_useFrame speed delta st) / 10\<rfloor>)))
       \<and> offsetRef (MovingGrid_useFrame 0 1 MovingGrid) = offsetRef MovingGrid + 5
       \<and> meshRef (MovingGrid_useFrame 0 1 MovingGrid) = Some (- 95)"
proof -
  let ?st' = "MovingGrid_useFrame speed delta st"
  have a: "offsetRef ?st' = offsetRef st + (if speed > 0 then speed else 5) * delta"
    using assms by (simp add: MovingGrid_useFrame_mounted activeSpeed_def)
  have b: "meshRef ?st' = Some (- 100 + js_rem (offsetRef ?st') 10)"
    using assms by (simp add: MovingGrid_useFrame_mounted)
  have c: "meshRef ?st' = Some (- 100 + (offsetRef ?st' - 10 * of_int \<lfloor>offsetRef ?st' / 10\<rfloor>))"
    if "0 \<le> offsetRef st \<and> 0 \<le> delta"
  proof -
    from that have "offsetRef st \<le> offsetRef ?st'"
      by (simp add: MovingGrid_useFrame_offset_mono)
    with that have "0 \<le> offsetRef ?st'" by simp
    then have "js_rem (offsetRef ?st') 10 = glsl_mod (offsetRef ?st') 10"
      by (simp add: js_rem_nonneg)
    with b show ?thesis by (simp add: glsl_mod_def)
  qed
  have d: "offsetRef (MovingGrid_useFrame 0 1 MovingGrid) = offsetRef MovingGrid + 5"
    by (simp add: MovingGrid_useFrame_def MovingGrid_def activeSpeed_def Let_def)
  have e: "meshRef (MovingGrid_useFrame 0 1 MovingGrid) = Some (- 95)"
    by (simp add: MovingGrid_useFrame_def MovingGrid_def activeSpeed_def Let_def js_rem_def)
  from a b c d e show ?thesis by blast
qed

theorem C7_grid_tick_witness:
  "meshRef MovingGrid = Some (- 100) \<and> 0 \<le> offsetRef MovingGrid \<and> (0::real) \<le> 1
   \<and> offsetRef (MovingGrid_useFrame 0 1 MovingGrid) = 5
   \<and> meshRef (MovingGrid_useFrame 0 1 MovingGrid)
        = Some (- 100 + (offsetRef (MovingGrid_useFrame 0 1 MovingGrid)
             - 10 * of_int \<lfloor>offsetRef (MovingGrid_useFrame 0 1 MovingGrid) / 10\<rfloor>))"
proof -
  have h: "meshRef MovingGrid = Some (- 100)" by (simp add: MovingGrid_def)
  have n: "0 \<le> offsetRef MovingGrid \<and> (0::real) \<le> 1" by (simp add: MovingGrid_def)
  have z: "offsetRef MovingGrid = 0" by (simp add: MovingGrid_def)
  note t = C7_grid_tick [OF h, where speed = 0 and delta = 1]
  from t have "offsetRef (MovingGrid_useFrame 0 1 MovingGrid) = offsetRef MovingGrid + 5"
    by blast
  with z have a: "offsetRef (MovingGrid_useFrame 0 1 MovingGrid) = 5" by simp
  from t n have "meshRef (MovingGrid_useFrame 0 1 MovingGrid)
        = Some (- 100 + (offsetRef (MovingGrid_useFrame 0 1 MovingGrid)
             - 10 * of_int \<lfloor>offsetRef (MovingGrid_useFrame 0 1 MovingGrid) / 10\<rfloor>))"
    by blast
  with a h n show ?thesis by blast
qed

subsection \<open>Moving grid in binary64\<close>

lemma MovingGrid_useFrame_ieee_mounted:
  assumes "meshRef st = Some z0"
  shows "offsetRef (MovingGrid_useFrame_ieee speed delta st)
           = fl64 (offsetRef st + fl64 (activeSpeed speed * delta))"
    and "meshRef (MovingGrid_useFrame_ieee speed delta st)
           = Some (fl64 (- 100 + js_rem (fl64 (offsetRef st + fl64 (activeSpeed speed * delta))) 10))"
  using assms by (simp_all add: MovingGrid_useFrame_ieee_def Let_def)

lemma MovingGrid_useFrame_ieee_unmounted:
  assumes "meshRef st = None"
  shows "MovingGrid_useFrame_ieee speed delta st = st"
  using assms by (simp add: MovingGrid_useFrame_ieee_def)

lemma MovingGrid_useFrame_ieee_keeps_mesh:
  "(meshRef (MovingGrid_useFrame_ieee speed delta st) = None) = (meshRef st = None)"
  by (cases "meshRef st") (simp_all add: MovingGrid_useFrame_ieee_def Let_def)

lemma MovingGrid_frames_ieee_keeps_mesh:
  "(meshRef (MovingGrid_frames_ieee st fs) = None) = (meshRef st = None)"
proof (induction fs arbitrary: st)
  case Nil
  then show ?case by simp
next
  case (Cons f fs)
  then show ?case
    by (cases f) (simp add: MovingGrid_useFrame_ieee_keeps_mesh)
qed

text \<open>
  The stored offset stays a non-negative binary64 number, and a frame with \<open>delta \<ge> 0\<close>
  does not decrease it.
\<close>

lemma MovingGrid_useFrame_ieee_offset:
  assumes "0 \<le> delta" and "0 \<le> offsetRef st" and "fl64 (offsetRef st) = offsetRef st"
  shows "0 \<le> offsetRef (MovingGrid_useFrame_ieee speed delta st)
       \<and> fl64 (offsetRef (MovingGrid_useFrame_ieee speed delta st))
           = offsetRef (MovingGrid_useFrame_ieee speed delta st)
       \<and> offsetRef st \<le> offsetRef (MovingGrid_useFrame_ieee speed delta st)"
proof (cases "meshRef st")
  case None
  with assms show ?thesis by (simp add: MovingGrid_useFrame_ieee_unmounted)
next
  case (Some z0)
  have "0 \<le> activeSpeed speed * delta"
    using assms(1) activeSpeed_pos [of speed] by simp
  then have "fl64 0 \<le> fl64 (activeSpeed speed * delta)" by (rule fl64_mono)
  then have "0 \<le> fl64 (activeSpeed speed * delta)" by (simp add: fl64_consts)
  then have "offsetRef st \<le> offsetRef st + fl64 (activeSpeed speed * delta)" by simp
  then have "fl64 (offsetRef st) \<le> fl64 (offsetRef st + fl64 (activeSpeed speed * delta))"
    by (rule fl64_mono)
  with assms(3) have "offsetRef st \<le> fl64 (offsetRef st + fl64 (activeSpeed speed * delta))"
    by simp
  with assms(2) show ?thesis
    by (simp add: MovingGrid_useFrame_ieee_mounted [OF Some])
qed

lemma MovingGrid_frames_ieee_offset:
  assumes "\<forall>(speed, delta) \<in> set fs. 0 \<le> delta"
    and "0 \<le> offsetRef st" and "fl64 (offsetRef st) = offsetRef st"
  shows "0 \<le> offsetRef (MovingGrid_frames_ieee st fs)
       \<and> fl64 (offsetRef (MovingGrid_frames_ieee st fs)) = offsetRef (MovingGrid_frames_ieee st fs)"
  using assms
proof (induction fs arbitrary: st)
  case Nil
  then show ?case by simp
next
  case (Cons f fs)
  obtain speed delta where f: "f = (speed, delta)" by (cases f)
  with Cons.prems(1) have d: "0 \<le> delta" by simp
  from MovingGrid_useFrame_ieee_offset [OF d Cons.prems(2) Cons.prems(3), of speed]
  have "0 \<le> offsetRef (MovingGrid_useFrame_ieee speed delta st)"
    and "fl64 (offsetRef (MovingGrid_useFrame_ieee speed delta st))
           = offsetRef (MovingGrid_useFrame_ieee speed delta st)"
    by simp_all
  from Cons.IH [OF _ this] Cons.prems(1) f show ?case by simp
qed

text \<open>
  C10 as stated fails at the upper end: the sum \<^verbatim>\<open>-100 + (offset % cellSize)\<close> is rounded,
  and for a remainder just below 10 it rounds to \<open>-90\<close>. One frame with the binary64 speed
  \<open>10 - 2^-49\<close> and \<open>delta = 1\<close> from the initial state writes exactly \<open>-90\<close>.
\<close>

theorem C10_counterexample:
  "fl64 (10 - 1 / 2 ^ 49) = 10 - 1 / 2 ^ 49 \<and> (0::real) \<le> 1
   \<and> offsetRef (MovingGrid_frames_ieee MovingGrid [(10 - 1 / 2 ^ 49, 1)]) = 10 - 1 / 2 ^ 49
   \<and> meshRef (MovingGrid_frames_ieee MovingGrid [(10 - 1 / 2 ^ 49, 1)]) = Some (- 90)
   \<and> \<not> (\<exists>zPos. meshRef (MovingGrid_frames_ieee MovingGrid [(10 - 1 / 2 ^ 49, 1)]) = Some zPos
              \<and> - 100 \<le> zPos \<and> zPos < - 90)"
proof -
  have v: "fl64 (10 - 1 / 2 ^ 49) = 10 - 1 / 2 ^ 49"
    using fl64_exact [of 5629499534213119 "- 49"] by (simp add: power_int_minus_divide)
  have r: "js_rem (10 - 1 / 2 ^ 49) 10 = 10 - 1 / 2 ^ 49"
    by (simp add: js_rem_def)
  have z: "fl64 (- 90 - 1 / 2 ^ 49) = - 90"
  proof -
    have "fl64 (- 90 - 1 / 2 ^ 49)
        = of_int (rne ((- 90 - 1 / 2 ^ 49) / 2 powi max (6 - int 53 + 1) (- 1074)))
            * 2 powi max (6 - int 53 + 1) (- 1074)"
      unfolding fl64_def by (rule fl_eq_rne) simp_all
    also have "rne ((- 90 - 1 / 2 ^ 49) / 2 powi max (6 - int 53 + 1) (- 1074)) = - 90 * 2 ^ 46"
      by (rule rne_eqI) (simp add: power_int_minus_divide)
    finally show ?thesis by (simp add: power_int_minus_divide)
  qed
  have a: "activeSpeed (10 - 1 / 2 ^ 49) = 10 - 1 / 2 ^ 49"
    by (simp add: activeSpeed_def)
  have m: "meshRef MovingGrid = Some (- 100)" and o: "offsetRef MovingGrid = 0"
    by (simp_all add: MovingGrid_def)
  have off: "offsetRef (MovingGrid_useFrame_ieee (10 - 1 / 2 ^ 49) 1 MovingGrid) = 10 - 1 / 2 ^ 49"
    by (simp only: MovingGrid_useFrame_ieee_mounted [OF m] o a v mult_1_right add_0)
  have s: "- 100 + (10 - 1 / 2 ^ 49) = (- 90 - 1 / 2 ^ 49 :: real)" by simp
  have mesh: "meshRef (MovingGrid_useFrame_ieee (10 - 1 / 2 ^ 49) 1 MovingGrid) = Some (- 90)"
    by (simp only: MovingGrid_useFrame_ieee_mounted [OF m] o a v r s z mult_1_right add_0)
  have fr: "MovingGrid_frames_ieee MovingGrid [(10 - 1 / 2 ^ 49, 1)]
      = MovingGrid_useFrame_ieee (10 - 1 / 2 ^ 49) 1 MovingGrid"
    by (simp only: MovingGrid_frames_ieee.simps)
  from v off mesh show ?thesis by (simp only: fr) simp
qed

text \<open>
  C10, amended. Starting from the initial offset 0, after any run of frames with
  \<open>delta \<ge> 0\<close> and arbitrary speeds, a further such frame writes a mesh depth in the closed
  interval \<open>[-100, -90]\<close>. The stored accumulator itself never decreases (the effective
  speed is strictly positive) and is not confined to a cell: every bound is exceeded by
  the accumulator of some run.
\<close>

theorem C10_mesh_z_range:
  assumes "\<forall>(speed, delta) \<in> set fs. 0 \<le> delta" and "0 \<le> delta"
  shows "(\<exists>zPos. meshRef (MovingGrid_useFrame_ieee speed delta (MovingGrid_frames_ieee MovingGrid fs))
                  = Some zPos
            \<and> - 100 \<le> zPos \<and> zPos \<le> - 90)
       \<and> offsetRef (MovingGrid_frames_ieee MovingGrid fs)
            \<le> offsetRef (MovingGrid_useFrame_ieee speed delta (MovingGrid_frames_ieee MovingGrid fs))
       \<and> 0 < activeSpeed speed
       \<and> (\<forall>B. \<exists>fs'. (\<forall>(speed', delta') \<in> set fs'. 0 \<le> delta')
                  \<and> B < offsetRef (MovingGrid_frames_ieee MovingGrid fs'))"
proof -
  let ?st = "MovingGrid_frames_ieee MovingGrid fs"
  let ?off = "offsetRef (MovingGrid_useFrame_ieee speed delta ?st)"
  have "meshRef ?st \<noteq> None"
    by (simp add: MovingGrid_frames_ieee_keeps_mesh) (simp add: MovingGrid_def)
  then obtain z0 where m: "meshRef ?st = Some z0" by blast
  have "0 \<le> offsetRef ?st \<and> fl64 (offsetRef ?st) = offsetRef ?st"
    by (rule MovingGrid_frames_ieee_offset [OF assms(1)]) (simp_all add: MovingGrid_def fl64_consts)
  then have nn: "0 \<le> offsetRef ?st" and rep: "fl64 (offsetRef ?st) = offsetRef ?st"
    by simp_all
  from MovingGrid_useFrame_ieee_offset [OF assms(2) nn rep, of speed]
  have step1: "0 \<le> ?off" and step3: "offsetRef ?st \<le> ?off"
    by simp_all
  from step1 have "0 \<le> js_rem ?off 10 \<and> js_rem ?off 10 < 10"
    by (simp add: js_rem_range)
  then have "- 100 \<le> - 100 + js_rem ?off 10" and "- 100 + js_rem ?off 10 \<le> - 90"
    by simp_all
  then have "fl64 (- 100) \<le> fl64 (- 100 + js_rem ?off 10)"
    and "fl64 (- 100 + js_rem ?off 10) \<le> fl64 (- 90)"
    by (simp_all only: fl64_mono)
  then have "- 100 \<le> fl64 (- 100 + js_rem ?off 10)" and "fl64 (- 100 + js_rem ?off 10) \<le> - 90"
    by (simp_all only: fl64_consts)
  moreover have "meshRef (MovingGrid_useFrame_ieee speed delta ?st)
      = Some (fl64 (- 100 + js_rem ?off 10))"
    by (simp only: MovingGrid_useFrame_ieee_mounted [OF m])
  ultimately have z: "\<exists>zPos. meshRef (MovingGrid_useFrame_ieee speed delta ?st) = Some zPos
            \<and> - 100 \<le> zPos \<and> zPos \<le> - 90"
    by blast
  have unb: "\<exists>fs'. (\<forall>(speed', delta') \<in> set fs'. 0 \<le> delta')
                  \<and> B < offsetRef (MovingGrid_frames_ieee MovingGrid fs')" for B
  proof
    define n where "n = nat \<lceil>\<bar>B\<bar>\<rceil>"
    have "\<bar>B\<bar> \<le> of_nat n" unfolding n_def by linarith
    also have "of_nat n < (2::real) ^ n" by (rule of_nat_less_two_power)
    finally have B: "B < 5 * 2 ^ n" by simp
    have e: "fl64 (5 * 2 ^ n) = 5 * 2 ^ n"
      using fl64_exact [of 5 "int n"] by simp
    have m0: "meshRef MovingGrid = Some (- 100)" and o: "offsetRef MovingGrid = 0"
      by (simp_all add: MovingGrid_def)
    have "offsetRef (MovingGrid_frames_ieee MovingGrid [(0, 2 ^ n)]) = 5 * 2 ^ n"
      by (simp add: MovingGrid_useFrame_ieee_mounted [OF m0] o activeSpeed_def e)
    with B show "(\<forall>(speed', delta') \<in> set [(0::real, (2::real) ^ n)]. 0 \<le> delta')
                  \<and> B < offsetRef (MovingGrid_frames_ieee MovingGrid [(0, 2 ^ n)])"
      by simp
  qed
  from z step3 activeSpeed_pos unb show ?thesis by blast
qed

theorem C10_mesh_z_range_witness:
  "(0::real) \<le> 3 \<and> (0::real) \<le> 1 / 2 \<and> (0::real) \<le> 2
   \<and> (\<exists>zPos. meshRef (MovingGrid_useFrame_ieee (- 1) 2
                          (MovingGrid_frames_ieee MovingGrid [(0, 3), (12, 1 / 2)])) = Some zPos
              \<and> - 100 \<le> zPos \<and> zPos \<le> - 90)
   \<and> offsetRef (MovingGrid_frames_ieee MovingGrid [(0, 3), (12, 1 / 2)])
        \<le> offsetRef (MovingGrid_useFrame_ieee (- 1) 2
                        (MovingGrid_frames_ieee MovingGrid [(0, 3), (12, 1 / 2)]))"
proof -
  have h1: "\<forall>(speed, delta) \<in> set [(0, 3), (12, 1 / 2)]. (0::real) \<le> delta" by simp
  have h2: "(0::real) \<le> 2" by simp
  from C10_mesh_z_range [OF h1 h2, of "- 1"] h2 show ?thesis by simp
qed

subsection \<open>Fallback speed\<close>

text \<open>
  C4. For every speed \<open>v \<le> 0\<close> the effective speed used in a frame is exactly 5, and for
  every \<open>v > 0\<close> it is \<open>v\<close>: this is the value the star field stores in \<^verbatim>\<open>uSpeed\<close> and,
  computed on its own, the factor by which the moving grid advances its offset.
\<close>

theorem C4_fallback_speed:
  assumes "materialRef sf = Some u" and "meshRef mg = Some z0"
  shows "materialRef (StarField_useFrame v elapsedTime sf)
           = Some \<lparr>uTime = elapsedTime, uSpeed = (if v \<le> 0 then 5 else v)\<rparr>
       \<and> activeSpeed v = (if v \<le> 0 then 5 else v)
       \<and> offsetRef (MovingGrid_useFrame v delta mg)
           = offsetRef mg + (if v \<le> 0 then 5 else v) * delta"
  using assms
  by (simp add: StarField_useFrame_def MovingGrid_useFrame_mounted activeSpeed_fallback)

theorem C4_fallback_speed_witness:
  "materialRef (StarField (\<lambda>k. 1 / 2)) = Some \<lparr>uTime = 0, uSpeed = 0\<rparr>
   \<and> meshRef MovingGrid = Some (- 100)
   \<and> materialRef (StarField_useFrame (- 3) 7 (StarField (\<lambda>k. 1 / 2)))
        = Some \<lparr>uTime = 7, uSpeed = 5\<rparr>
   \<and> materialRef (StarField_useFrame 8 7 (StarField (\<lambda>k. 1 / 2)))
        = Some \<lparr>uTime = 7, uSpeed = 8\<rparr>
   \<and> offsetRef (MovingGrid_useFrame (- 3) 2 MovingGrid) = 10
   \<and> offsetRef (MovingGrid_useFrame 8 2 MovingGrid) = 16"
proof -
  have h1: "materialRef (StarField (\<lambda>k. 1 / 2)) = Some \<lparr>uTime = 0, uSpeed = 0\<rparr>"
    by (simp add: StarField_def)
  have h2: "meshRef MovingGrid = Some (- 100)" by (simp add: MovingGrid_def)
  have z: "offsetRef MovingGrid = 0" by (simp add: MovingGrid_def)
  from C4_fallback_speed [OF h1 h2, where v = "- 3" and elapsedTime = 7 and delta = 2]
    C4_fallback_speed [OF h1 h2, where v = 8 and elapsedTime = 7 and delta = 2] h1 h2 z
  show ?thesis by simp
qed

subsection \<open>Tunnel avoidance\<close>

lemma vertex_main_vx: "vx (vertex_main u p) = vx p"
  by (simp add: vertex_main_def Let_def)

lemma vertex_main_vy:
  "vy (vertex_main u p)
     = (if \<bar>vx p\<bar> < 20 \<and> - 10 < vy p \<and> vy p < 30 then vy p + 50 else vy p)"
  by (simp add: vertex_main_def Let_def)

text \<open>
  C6. The wraparound changes neither \<open>x\<close> nor \<open>y\<close>. A particle with \<open>|x| < 20\<close> and
  \<open>-10 < y < 30\<close> leaves the shader's position computation with its \<open>y\<close> increased by
  exactly 50, while a particle with the same \<open>x\<close> and \<open>z\<close> but \<open>y\<close> outside that band keeps
  its \<open>y\<close>; both keep \<open>x\<close> and get the same depth.
\<close>

theorem C6_tunnel_avoidance:
  assumes "\<bar>x\<bar> < 20" and "- 10 < y" and "y < 30" and "y' \<le> - 10 \<or> 30 \<le> y'"
  shows "vy (vertex_main u \<lparr>vx = x, vy = y, vz = z\<rparr>) = y + 50
       \<and> vy (vertex_main u \<lparr>vx = x, vy = y', vz = z\<rparr>) = y'
       \<and> vx (vertex_main u \<lparr>vx = x, vy = y, vz = z\<rparr>) = x
       \<and> vx (vertex_main u \<lparr>vx = x, vy = y', vz = z\<rparr>) = x
       \<and> vz (vertex_main u \<lparr>vx = x, vy = y, vz = z\<rparr>)
           = vz (vertex_main u \<lparr>vx = x, vy = y', vz = z\<rparr>)"
  using assms by (auto simp add: vertex_main_vx vertex_main_vy vertex_main_vz)

theorem C6_tunnel_avoidance_witness:
  "\<bar>3::real\<bar> < 20 \<and> (- 10::real) < 4 \<and> (4::real) < 30 \<and> ((40::real) \<le> - 10 \<or> (30::real) \<le> 40)
   \<and> vy (vertex_main \<lparr>uTime = 2, uSpeed = 5\<rparr> \<lparr>vx = 3, vy = 4, vz = - 300\<rparr>) = 54
   \<and> vy (vertex_main \<lparr>uTime = 2, uSpeed = 5\<rparr> \<lparr>vx = 3, vy = 40, vz = - 300\<rparr>) = 40"
proof -
  have h1: "\<bar>3::real\<bar> < 20" and h2: "(- 10::real) < 4" and h3: "(4::real) < 30"
    and h4: "(40::real) \<le> - 10 \<or> (30::real) \<le> 40"
    by simp_all
  from C6_tunnel_avoidance [OF h1 h2 h3 h4, where u = "\<lparr>uTime = 2, uSpeed = 5\<rparr>" and z = "- 300"]
  show ?thesis by simp
qed

subsection \<open>Horizon sun\<close>

text \<open>
  C8. With the group mounted, a frame at elapsed time \<open>t\<close> sets the vertical offset to
  \<open>30 + sin (t * 0.2)\<close> and the rotation to \<open>t * 0.05\<close>. Hence the offset at
  \<open>t + 2 * pi / 0.2\<close> equals the offset at \<open>t\<close>, and it lies between 29 and 31.
\<close>

theorem C8_sun_offset:
  assumes "sunGroupRef st = Some g"
  shows "sunGroupRef (RetroSun_useFrame t st)
           = Some \<lparr>position_y = 30 + sin (t * 0.2), rotation_y = t * 0.05\<rparr>
       \<and> map_option position_y (sunGroupRef (RetroSun_useFrame (t + 2 * pi / 0.2) st))
           = map_option position_y (sunGroupRef (RetroSun_useFrame t st))
       \<and> 29 \<le> 30 + sin (t * 0.2) \<and> 30 + sin (t * 0.2) \<le> 31"
proof -
  have frame: "sunGroupRef (RetroSun_useFrame s st)
           = Some \<lparr>position_y = 30 + sin (s * 0.2), rotation_y = s * 0.05\<rparr>" for s
    using assms by (cases "matRef st") (simp_all add: RetroSun_useFrame_def)
  have "(t + 2 * pi / 0.2) * 0.2 = t * 0.2 + 2 * pi"
    by (simp add: algebra_simps)
  then have "sin ((t + 2 * pi / 0.2) * 0.2) = sin (t * 0.2)"
    by (simp only: sin_periodic)
  then have per: "map_option position_y (sunGroupRef (RetroSun_useFrame (t + 2 * pi / 0.2) st))
           = map_option position_y (sunGroupRef (RetroSun_useFrame t st))"
    by (simp only: frame option.map_sel option.simps group.simps)
  have "29 \<le> 30 + sin (t * 0.2) \<and> 30 + sin (t * 0.2) \<le> 31"
    using sin_ge_minus_one [of "t * 0.2"] sin_le_one [of "t * 0.2"] by linarith
  with frame [of t] per show ?thesis by blast
qed

theorem C8_sun_offset_witness:
  "sunGroupRef RetroSun = Some \<lparr>position_y = 30, rotation_y = 0\<rparr>
   \<and> sunGroupRef (RetroSun_useFrame 0 RetroSun) = Some \<lparr>position_y = 30, rotation_y = 0\<rparr>
   \<and> map_option position_y (sunGroupRef (RetroSun_useFrame (0 + 2 * pi / 0.2) RetroSun))
        = Some 30"
proof -
  have h: "sunGroupRef RetroSun = Some \<lparr>position_y = 30, rotation_y = 0\<rparr>"
    by (simp add: RetroSun_def)
  from C8_sun_offset [OF h, where t = 0] h show ?thesis by simp
qed

subsection \<open>Lane separators\<close>

lemma separators_loop_eq:
  "separators_loop LANE_WIDTH laneCount startX i lines
     = lines @ map (\<lambda>j. fl64 (startX + fl64 (of_int j * LANE_WIDTH))) [i..laneCount]"
proof (induction LANE_WIDTH laneCount startX i lines rule: separators_loop.induct)
  case (1 LANE_WIDTH laneCount startX i lines)
  show ?case
  proof (cases "i \<le> laneCount")
    case True
    then have "[i..laneCount] = i # [i + 1..laneCount]"
      by (simp add: upto_rec1)
    with True "1.IH" show ?thesis
      by (simp add: separators_loop.simps [of _ _ _ i])
  next
    case False
    then show ?thesis
      by (simp add: separators_loop.simps [of _ _ _ i])
  qed
qed

lemma separators_eq:
  "separators LANE_WIDTH laneCount
     = map (\<lambda>j. fl64 (fl64 (- fl64 (of_int laneCount * LANE_WIDTH) / 2) + fl64 (of_int j * LANE_WIDTH)))
         [0..laneCount]"
  by (simp add: separators_def separators_loop_eq)

lemma separators_nth:
  assumes "0 \<le> i" and "i \<le> laneCount"
  shows "separators LANE_WIDTH laneCount ! nat i
           = fl64 (fl64 (- fl64 (of_int laneCount * LANE_WIDTH) / 2) + fl64 (of_int i * LANE_WIDTH))"
proof -
  from assms have "nat i < length [0..laneCount]" by simp
  moreover from assms have "[0..laneCount] ! nat i = i" by simp
  ultimately show ?thesis by (simp add: separators_eq)
qed

text \<open>
  When the lane width is \<open>m * 2^k\<close> with \<open>laneCount * \<bar>m\<bar> < 2^53\<close>, every intermediate
  result is a binary64 number and no operation rounds.
\<close>

lemma pow2_half: "(2::real) powi k / 2 = 2 powi (k - 1)"
  by (simp add: power_int_diff)

lemma abs_mult_le:
  fixes a b m :: int
  assumes "\<bar>a\<bar> \<le> \<bar>b\<bar>" and "\<bar>b * m\<bar> < c"
  shows "\<bar>a * m\<bar> < c"
proof -
  from assms(1) have "\<bar>a\<bar> * \<bar>m\<bar> \<le> \<bar>b\<bar> * \<bar>m\<bar>" by (simp add: mult_right_mono)
  with assms(2) show ?thesis by (simp add: abs_mult)
qed

lemma separators_nth_exact:
  assumes "0 \<le> i" and "i \<le> laneCount" and "\<bar>laneCount * m\<bar> < 2 ^ 53" and "- 1073 \<le> k"
  shows "separators (of_int m * 2 powi k) laneCount ! nat i
           = - (of_int laneCount * (of_int m * 2 powi k)) / 2 + of_int i * (of_int m * 2 powi k)"
proof -
  let ?W = "of_int m * (2::real) powi k"
  from assms(4) have k: "- 1074 \<le> k" and k1: "- 1074 \<le> k - 1" by simp_all
  have ea: "of_int laneCount * ?W = of_int (laneCount * m) * 2 powi k"
    by (simp add: mult.assoc)
  have a: "fl64 (of_int laneCount * ?W) = of_int laneCount * ?W"
    by (simp only: ea fl64_exact [OF assms(3) k])
  have "\<bar>- (laneCount * m)\<bar> < 2 ^ 53" using assms(3) by simp
  note fb = fl64_exact [OF this k1]
  have eb: "- (of_int laneCount * ?W) / 2 = of_int (- (laneCount * m)) * 2 powi (k - 1)"
    by (simp add: pow2_half [symmetric] mult.assoc)
  have b: "fl64 (- (of_int laneCount * ?W) / 2) = - (of_int laneCount * ?W) / 2"
    by (simp only: eb fb)
  from assms(1,2) have "\<bar>i\<bar> \<le> \<bar>laneCount\<bar>" by simp
  then have "\<bar>i * m\<bar> < 2 ^ 53" using assms(3) by (rule abs_mult_le)
  note fc = fl64_exact [OF this k]
  have ec: "of_int i * ?W = of_int (i * m) * 2 powi k"
    by (simp add: mult.assoc)
  have c: "fl64 (of_int i * ?W) = of_int i * ?W"
    by (simp only: ec fc)
  from assms(1,2) have "\<bar>2 * i - laneCount\<bar> \<le> \<bar>laneCount\<bar>" by simp
  then have "\<bar>(2 * i - laneCount) * m\<bar> < 2 ^ 53" using assms(3) by (rule abs_mult_le)
  note fd = fl64_exact [OF this k1]
  have "(2::real) powi k = 2 * 2 powi (k - 1)"
    by (simp add: pow2_half [symmetric])
  then have ed: "- (of_int laneCount * ?W) / 2 + of_int i * ?W
      = of_int ((2 * i - laneCount) * m) * 2 powi (k - 1)"
    by (simp add: algebra_simps)
  have d: "fl64 (- (of_int laneCount * ?W) / 2 + of_int i * ?W)
      = - (of_int laneCount * ?W) / 2 + of_int i * ?W"
    by (simp only: ed fd)
  show ?thesis
    by (simp only: separators_nth [OF assms(1,2)] a b c d)
qed

text \<open>
  C5 as stated fails for lane widths that are not such binary fractions: with the
  binary64 number nearest to 0.1 as lane width and three lanes, the two middle separators
  add up to \<open>-2^-55\<close> and not to 0.
\<close>

theorem C5_counterexample:
  "fl64 (3602879701896397 / 2 ^ 55) = 3602879701896397 / 2 ^ 55
   \<and> separators (3602879701896397 / 2 ^ 55) 3 ! 1 = - 1801439850948199 / 2 ^ 55
   \<and> separators (3602879701896397 / 2 ^ 55) 3 ! 2 = 1801439850948198 / 2 ^ 55
   \<and> separators (3602879701896397 / 2 ^ 55) 3 ! 1 + separators (3602879701896397 / 2 ^ 55) 3 ! 2
        \<noteq> 0"
proof -
  let ?W = "3602879701896397 / 2 ^ 55 :: real"
  have w: "fl64 ?W = ?W"
    using fl64_exact [of 3602879701896397 "- 55"] by (simp add: power_int_minus_divide)
  have p3: "fl64 (3 * ?W) = 5404319552844596 / 2 ^ 54"
  proof -
    have "fl64 (3 * ?W)
        = of_int (rne (3 * ?W / 2 powi max (- 2 - int 53 + 1) (- 1074)))
            * 2 powi max (- 2 - int 53 + 1) (- 1074)"
      unfolding fl64_def by (rule fl_eq_rne) (simp_all add: power_int_minus_divide)
    also have "rne (3 * ?W / 2 powi max (- 2 - int 53 + 1) (- 1074)) = 5404319552844596"
      by (simp add: power_int_minus_divide rne_def Let_def)
    finally show ?thesis by (simp add: power_int_minus_divide)
  qed
  have sx: "fl64 (- (5404319552844596 / 2 ^ 54) / 2) = - 5404319552844596 / 2 ^ 55"
    using fl64_exact [of "- 5404319552844596" "- 55"] by (simp add: power_int_minus_divide)
  have w2: "fl64 (2 * ?W) = 2 * ?W"
    using fl64_exact [of 3602879701896397 "- 54"] by (simp add: power_int_minus_divide)
  have s1: "fl64 (- 5404319552844596 / 2 ^ 55 + ?W) = - 1801439850948199 / 2 ^ 55"
    using fl64_exact [of "- 1801439850948199" "- 55"] by (simp add: power_int_minus_divide)
  have s2: "fl64 (- 5404319552844596 / 2 ^ 55 + 2 * ?W) = 1801439850948198 / 2 ^ 55"
    using fl64_exact [of 1801439850948198 "- 55"] by (simp add: power_int_minus_divide)
  have n1: "separators ?W 3 ! 1 = - 1801439850948199 / 2 ^ 55"
    using separators_nth [of 1 3 ?W]
    by (simp only: p3 sx w s1 of_int_1 of_int_numeral mult_1 nat_one_as_int [symmetric]; simp?)
  have n2: "separators ?W 3 ! 2 = 1801439850948198 / 2 ^ 55"
    using separators_nth [of 2 3 ?W]
    by (simp only: p3 sx w2 s2 of_int_numeral; simp?)
  from w n1 n2 show ?thesis by simp
qed

text \<open>
  C5, amended. For every \<open>laneCount \<ge> 1\<close> and every lane width the separator list has exactly
  \<open>laneCount + 1\<close> entries, and entry \<open>i\<close> is \<open>-(laneCount * laneWidth) / 2 + i * laneWidth\<close>
  evaluated in binary64, for \<open>i = 0..laneCount\<close>. When the lane width is \<open>m * 2^k\<close> with
  \<open>laneCount * \<bar>m\<bar> < 2^53\<close> (any integer width of ordinary size, for one), nothing is rounded:
  entry \<open>i\<close> is that value exactly, and entries \<open>i\<close> and \<open>laneCount - i\<close> add up to 0. In
  particular \<open>laneCount = 5\<close>, \<open>laneWidth = 4\<close> gives \<open>[-10, -6, -2, 2, 6, 10]\<close>.
\<close>

theorem C5_lane_separators:
  assumes "1 \<le> laneCount" and "0 \<le> i" and "i \<le> laneCount"
  shows "length (separators laneWidth laneCount) = nat (laneCount + 1)
       \<and> separators laneWidth laneCount ! nat i
           = fl64 (fl64 (- fl64 (of_int laneCount * laneWidth) / 2) + fl64 (of_int i * laneWidth))
       \<and> (\<bar>laneCount * m\<bar> < 2 ^ 53 \<and> - 1073 \<le> k \<longrightarrow>
            separators (of_int m * 2 powi k) laneCount ! nat i
              = - (of_int laneCount * (of_int m * 2 powi k)) / 2 + of_int i * (of_int m * 2 powi k)
            \<and> separators (of_int m * 2 powi k) laneCount ! nat i
                + separators (of_int m * 2 powi k) laneCount ! nat (laneCount - i) = 0)
       \<and> separators 4 5 = [- 10, - 6, - 2, 2, 6, 10]"
proof -
  have len: "length (separators laneWidth laneCount) = nat (laneCount + 1)"
    by (simp add: separators_eq)
  note a = separators_nth [OF assms(2,3), of laneWidth]
  have ex: "separators (of_int m * 2 powi k) laneCount ! nat i
              = - (of_int laneCount * (of_int m * 2 powi k)) / 2 + of_int i * (of_int m * 2 powi k)
            \<and> separators (of_int m * 2 powi k) laneCount ! nat i
                + separators (of_int m * 2 powi k) laneCount ! nat (laneCount - i) = 0"
    if h: "\<bar>laneCount * m\<bar> < 2 ^ 53 \<and> - 1073 \<le> k"
  proof -
    from h have h1: "\<bar>laneCount * m\<bar> < 2 ^ 53" and h2: "- 1073 \<le> k" by simp_all
    from assms(2,3) have j: "0 \<le> laneCount - i" "laneCount - i \<le> laneCount" by simp_all
    note e1 = separators_nth_exact [OF assms(2,3) h1 h2]
    note e2 = separators_nth_exact [OF j h1 h2]
    have "separators (of_int m * 2 powi k) laneCount ! nat i
                + separators (of_int m * 2 powi k) laneCount ! nat (laneCount - i) = 0"
      by (simp add: e1 e2 algebra_simps)
    with e1 show ?thesis by blast
  qed
  have four: "(4::real) = of_int 4 * 2 powi 0" by simp
  have s5: "separators 4 5 = [- 10, - 6, - 2, 2, 6, 10]"
  proof -
    have n: "separators (of_int 4 * 2 powi 0) 5 ! nat j
        = - (of_int 5 * (of_int 4 * 2 powi 0)) / 2 + of_int j * (of_int 4 * 2 powi 0)"
      if "0 \<le> j" "j \<le> 5" for j
      using that by (intro separators_nth_exact) simp_all
    have l: "length (separators 4 5) = 6" by (simp add: separators_eq)
    have "separators 4 5 ! 0 = - 10" "separators 4 5 ! 1 = - 6" "separators 4 5 ! 2 = - 2"
      "separators 4 5 ! 3 = 2" "separators 4 5 ! 4 = 6" "separators 4 5 ! 5 = 10"
      using n [of 0] n [of 1] n [of 2] n [of 3] n [of 4] n [of 5] by simp_all
    with l show ?thesis
      by (intro nth_equalityI) (auto simp add: less_Suc_eq numeral_eq_Suc)
  qed
  from len a ex s5 show ?thesis by blast
qed

theorem C5_lane_separators_witness:
  "(1::int) \<le> 5 \<and> (0::int) \<le> 1 \<and> (1::int) \<le> 5 \<and> \<bar>5 * 4 :: int\<bar> < 2 ^ 53 \<and> (- 1073::int) \<le> 0
   \<and> length (separators 4 5) = 6
   \<and> separators 4 5 ! 1 = - 6
   \<and> separators 4 5 ! 1 + separators 4 5 ! 4 = 0"
proof -
  have h1: "(1::int) \<le> 5" and h2: "(0::int) \<le> 1" and h3: "(1::int) \<le> 5"
    by simp_all
  from C5_lane_separators [OF h1 h2 h3, where laneWidth = 4 and m = 4 and k = 0]
  show ?thesis by simp
qed

subsection \<open>Particle creation\<close>

lemma length_positions_loop [simp]:
  "length (positions_loop rnd n i pos) = length pos"
  by (induction n arbitrary: i pos) simp_all

lemma positions_loop_below:
  "j < i * 3 \<Longrightarrow> positions_loop rnd n i pos ! j = pos ! j"
proof (induction n arbitrary: i pos)
  case 0
  then show ?case by simp
next
  case (Suc n)
  from Suc.prems have "j < Suc i * 3" by simp
  from Suc.IH [OF this] Suc.prems show ?case by simp
qed

lemma positions_loop_at:
  assumes "i \<le> k" and "k < i + n" and "(i + n) * 3 \<le> length pos"
  shows "positions_loop rnd n i pos ! (k * 3) = fl32 (fl64 (fl64 (rnd (3 * k) - 0.5) * 600))
       \<and> positions_loop rnd n i pos ! (k * 3 + 1) = fl32 (fl64 (fl64 (rnd (3 * k + 1) - 0.5) * 400))
       \<and> positions_loop rnd n i pos ! (k * 3 + 2) = fl32 (fl64 (- rnd (3 * k + 2) * 600))"
  using assms
proof (induction n arbitrary: i pos)
  case 0
  then show ?case by simp
next
  case (Suc n)
  let ?pos = "pos[i * 3 := fl32 (fl64 (fl64 (rnd (3 * i) - 0.5) * 600)),
                  i * 3 + 1 := fl32 (fl64 (fl64 (rnd (3 * i + 1) - 0.5) * 400)),
                  i * 3 + 2 := fl32 (fl64 (- rnd (3 * i + 2) * 600))]"
  show ?case
  proof (cases "k = i")
    case True
    have "i * 3 < Suc i * 3" and "i * 3 + 1 < Suc i * 3" and "i * 3 + 2 < Suc i * 3"
      by simp_all
    then have "positions_loop rnd n (Suc i) ?pos ! (i * 3) = ?pos ! (i * 3)"
      and "positions_loop rnd n (Suc i) ?pos ! (i * 3 + 1) = ?pos ! (i * 3 + 1)"
      and "positions_loop rnd n (Suc i) ?pos ! (i * 3 + 2) = ?pos ! (i * 3 + 2)"
      by (simp_all only: positions_loop_below)
    moreover from Suc.prems(3) have "i * 3 + 2 < length pos" by simp
    ultimately show ?thesis using True by simp
  next
    case False
    with Suc.prems have "Suc i \<le> k" and "k < Suc i + n" and "(Suc i + n) * 3 \<le> length ?pos"
      by simp_all
    from Suc.IH [OF this] show ?thesis by simp
  qed
qed

lemma length_positions: "length (positions rnd) = count * 3"
  by (simp add: positions_def)

lemma position_positions:
  assumes "k < count"
  shows "position (positions rnd) k
           = \<lparr>vx = fl32 (fl64 (fl64 (rnd (3 * k) - 0.5) * 600)),
              vy = fl32 (fl64 (fl64 (rnd (3 * k + 1) - 0.5) * 400)),
              vz = fl32 (fl64 (- rnd (3 * k + 2) * 600))\<rparr>"
  using assms positions_loop_at [of 0 k count "replicate (count * 3) 0" rnd]
  by (simp add: position_def positions_def)

lemma length_randoms_loop [simp]:
  "length (randoms_loop rnd n i r) = length r"
  by (induction n arbitrary: i r) simp_all

lemma randoms_loop_below:
  "j < i \<Longrightarrow> randoms_loop rnd n i r ! j = r ! j"
proof (induction n arbitrary: i r)
  case 0
  then show ?case by simp
next
  case (Suc n)
  from Suc.prems have "j < Suc i" by simp
  from Suc.IH [OF this] Suc.prems show ?case by simp
qed

lemma randoms_loop_at:
  assumes "i \<le> k" and "k < i + n" and "i + n \<le> length r"
  shows "randoms_loop rnd n i r ! k = fl32 (rnd (3 * count + k))"
  using assms
proof (induction n arbitrary: i r)
  case 0
  then show ?case by simp
next
  case (Suc n)
  show ?case
  proof (cases "k = i")
    case True
    with Suc.prems(3) show ?thesis by (simp add: randoms_loop_below)
  next
    case False
    with Suc.prems have "Suc i \<le> k" and "k < Suc i + n"
      and "Suc i + n \<le> length (r[i := fl32 (rnd (3 * count + i))])"
      by simp_all
    from Suc.IH [OF this] show ?thesis by simp
  qed
qed

lemma length_randoms: "length (randoms rnd) = count"
  by (simp add: randoms_def)

lemma randoms_nth:
  assumes "k < count"
  shows "randoms rnd ! k = fl32 (rnd (3 * count + k))"
  using assms randoms_loop_at [of 0 k count "replicate count 0" rnd]
  by (simp add: randoms_def)

lemma StarField_useFrame_arrays:
  "attributes_position (StarField_useFrame speed elapsedTime st) = attributes_position st"
  "attributes_aRandom (StarField_useFrame speed elapsedTime st) = attributes_aRandom st"
  by (cases "materialRef st"; simp add: StarField_useFrame_def)+

text \<open>
  Rounding is monotone and keeps the end points, which are binary64 and binary32 numbers,
  so each stored value stays within the closed interval of its exact value.
\<close>

lemma fl64_between:
  assumes "a \<le> x" and "x \<le> b" and "fl64 a = a" and "fl64 b = b"
  shows "a \<le> fl64 x \<and> fl64 x \<le> b"
  using fl64_mono [OF assms(1)] fl64_mono [OF assms(2)] assms(3,4) by simp

lemma fl32_between:
  assumes "a \<le> x" and "x \<le> b" and "fl32 a = a" and "fl32 b = b"
  shows "a \<le> fl32 x \<and> fl32 x \<le> b"
  using fl32_mono [OF assms(1)] fl32_mono [OF assms(2)] assms(3,4) by simp

lemma stored_centred_bounds:
  assumes "0 \<le> r" and "r < 1" and "0 \<le> w"
    and "fl64 (- (w / 2)) = - (w / 2)" and "fl64 (w / 2) = w / 2"
    and "fl32 (- (w / 2)) = - (w / 2)" and "fl32 (w / 2) = w / 2"
  shows "- (w / 2) \<le> fl32 (fl64 (fl64 (r - 0.5) * w)) \<and> fl32 (fl64 (fl64 (r - 0.5) * w)) \<le> w / 2"
proof -
  from assms(1,2) have "- (1 / 2) \<le> r - 0.5" and "r - 0.5 \<le> 1 / 2" by simp_all
  then have c: "- (1 / 2) \<le> fl64 (r - 0.5) \<and> fl64 (r - 0.5) \<le> 1 / 2"
    by (rule fl64_between) (simp_all add: fl64_consts)
  from c assms(3) have "- (1 / 2) * w \<le> fl64 (r - 0.5) * w"
    by (intro mult_right_mono) simp_all
  moreover from c assms(3) have "fl64 (r - 0.5) * w \<le> 1 / 2 * w"
    by (intro mult_right_mono) simp_all
  ultimately have "- (w / 2) \<le> fl64 (r - 0.5) * w" and "fl64 (r - 0.5) * w \<le> w / 2"
    by simp_all
  then have "- (w / 2) \<le> fl64 (fl64 (r - 0.5) * w) \<and> fl64 (fl64 (r - 0.5) * w) \<le> w / 2"
    using assms(4,5) by (rule fl64_between)
  then have "- (w / 2) \<le> fl64 (fl64 (r - 0.5) * w)" and "fl64 (fl64 (r - 0.5) * w) \<le> w / 2"
    by simp_all
  then show ?thesis using assms(6,7) by (rule fl32_between)
qed

lemma stored_depth_bounds:
  assumes "0 \<le> r" and "r < 1"
  shows "- 600 \<le> fl32 (fl64 (- r * 600)) \<and> fl32 (fl64 (- r * 600)) \<le> 0"
proof -
  from assms have "- 600 \<le> - r * 600" and "- r * 600 \<le> 0" by simp_all
  then have "- 600 \<le> fl64 (- r * 600) \<and> fl64 (- r * 600) \<le> 0"
    by (rule fl64_between) (simp_all add: fl64_consts)
  then have "- 600 \<le> fl64 (- r * 600)" and "fl64 (- r * 600) \<le> 0" by simp_all
  then show ?thesis
    by (rule fl32_between) (simp_all add: fl32_consts)
qed

lemma stored_jitter_bounds:
  assumes "0 \<le> r" and "r < 1"
  shows "0 \<le> fl32 r \<and> fl32 r \<le> 1"
proof -
  from assms have "0 \<le> r" and "r \<le> 1" by simp_all
  then show ?thesis
    by (rule fl32_between) (simp_all add: fl32_consts)
qed

text \<open>
  C9 as stated fails at two half-open ends. The depth is \<open>-r * 600\<close>, so the draw \<open>r = 0\<close>
  gives \<open>Z = 0\<close>, outside \<open>[-600, 0)\<close>. The jitter is the draw stored as binary32, and the
  largest binary64 number below 1, \<open>1 - 2^-53\<close>, is stored as exactly 1, outside \<open>[0, 1)\<close>.
\<close>

theorem C9_counterexample:
  "(\<forall>k. 0 \<le> (\<lambda>k. 0::real) k \<and> (\<lambda>k. 0::real) k < 1)
   \<and> vz (position (attributes_position (StarField (\<lambda>k. 0))) 0) = 0
   \<and> \<not> (- 600 \<le> vz (position (attributes_position (StarField (\<lambda>k. 0))) 0)
          \<and> vz (position (attributes_position (StarField (\<lambda>k. 0))) 0) < 0)
   \<and> (\<forall>k. 0 \<le> (\<lambda>k. 1 - 1 / 2 ^ 53 :: real) k \<and> (\<lambda>k. 1 - 1 / 2 ^ 53 :: real) k < 1)
   \<and> fl64 (1 - 1 / 2 ^ 53) = 1 - 1 / 2 ^ 53
   \<and> attributes_aRandom (StarField (\<lambda>k. 1 - 1 / 2 ^ 53)) ! 0 = 1
   \<and> \<not> (0 \<le> attributes_aRandom (StarField (\<lambda>k. 1 - 1 / 2 ^ 53)) ! 0
          \<and> attributes_aRandom (StarField (\<lambda>k. 1 - 1 / 2 ^ 53)) ! 0 < 1)"
proof -
  have z: "vz (position (attributes_position (StarField (\<lambda>k. 0))) 0) = 0"
    using position_positions [of 0 "\<lambda>k. 0"]
    by (simp add: StarField_def count_def fl64_consts fl32_consts)
  have d: "fl64 (1 - 1 / 2 ^ 53) = 1 - 1 / 2 ^ 53"
    using fl64_exact [of 9007199254740991 "- 53"] by (simp add: power_int_minus_divide)
  have r: "fl32 (1 - 1 / 2 ^ 53) = 1"
  proof -
    have "fl32 (1 - 1 / 2 ^ 53)
        = of_int (rne ((1 - 1 / 2 ^ 53) / 2 powi max (- 1 - int 24 + 1) (- 149)))
            * 2 powi max (- 1 - int 24 + 1) (- 149)"
      unfolding fl32_def by (rule fl_eq_rne) (simp_all add: power_int_minus_divide)
    also have "rne ((1 - 1 / 2 ^ 53) / 2 powi max (- 1 - int 24 + 1) (- 149)) = 2 ^ 24"
      by (rule rne_eqI) (simp add: power_int_minus_divide)
    finally show ?thesis by (simp add: power_int_minus_divide)
  qed
  have "(0::nat) < count" by (simp add: count_def)
  from randoms_nth [OF this, of "\<lambda>k. 1 - 1 / 2 ^ 53"]
  have j: "attributes_aRandom (StarField (\<lambda>k. 1 - 1 / 2 ^ 53)) ! 0 = 1"
    by (simp only: StarField_def StarField_state.simps r)
  have b: "(0::real) \<le> 1 - 1 / 2 ^ 53 \<and> (1 - 1 / 2 ^ 53 :: real) < 1" by simp
  from z d j b show ?thesis by simp
qed

text \<open>
  C9, amended. At creation exactly 4000 particles are produced (a position array of
  \<open>3 * 4000\<close> numbers and a jitter array of 4000), and whatever the random draws in
  \<open>[0, 1)\<close> are, every particle has \<open>X\<close> in \<open>[-300, 300]\<close>, \<open>Y\<close> in \<open>[-200, 200]\<close>, \<open>Z\<close> in
  \<open>[-600, 0]\<close> and jitter in \<open>[0, 1]\<close>; the frame callback leaves both arrays as they are.
\<close>

theorem C9_particle_creation:
  assumes "\<forall>k. 0 \<le> rnd k \<and> rnd k < 1" and "i < 4000"
  shows "count = 4000
       \<and> length (attributes_position (StarField rnd)) = 3 * 4000
       \<and> length (attributes_aRandom (StarField rnd)) = 4000
       \<and> - 300 \<le> vx (position (attributes_position (StarField rnd)) i)
       \<and> vx (position (attributes_position (StarField rnd)) i) \<le> 300
       \<and> - 200 \<le> vy (position (attributes_position (StarField rnd)) i)
       \<and> vy (position (attributes_position (StarField rnd)) i) \<le> 200
       \<and> - 600 \<le> vz (position (attributes_position (StarField rnd)) i)
       \<and> vz (position (attributes_position (StarField rnd)) i) \<le> 0
       \<and> 0 \<le> attributes_aRandom (StarField rnd) ! i
       \<and> attributes_aRandom (StarField rnd) ! i \<le> 1
       \<and> attributes_position (StarField_useFrame speed elapsedTime st) = attributes_position st
       \<and> attributes_aRandom (StarField_useFrame speed elapsedTime st) = attributes_aRandom st"
proof -
  from assms(2) have i: "i < count" by (simp add: count_def)
  have x: "0 \<le> rnd (3 * i)" "rnd (3 * i) < 1"
    and y: "0 \<le> rnd (3 * i + 1)" "rnd (3 * i + 1) < 1"
    and z: "0 \<le> rnd (3 * i + 2)" "rnd (3 * i + 2) < 1"
    and j: "0 \<le> rnd (3 * count + i)" "rnd (3 * count + i) < 1"
    using assms(1) by blast+
  have len: "length (attributes_position (StarField rnd)) = 3 * 4000
           \<and> length (attributes_aRandom (StarField rnd)) = 4000"
    by (simp add: StarField_def length_positions length_randoms count_def)
  have "- (600 / 2) \<le> fl32 (fl64 (fl64 (rnd (3 * i) - 0.5) * 600))
      \<and> fl32 (fl64 (fl64 (rnd (3 * i) - 0.5) * 600)) \<le> 600 / 2"
    by (rule stored_centred_bounds [OF x]) (simp_all add: fl64_consts fl32_consts)
  then have px: "- 300 \<le> vx (position (attributes_position (StarField rnd)) i)
          \<and> vx (position (attributes_position (StarField rnd)) i) \<le> 300"
    by (simp add: StarField_def position_positions [OF i])
  have "- (400 / 2) \<le> fl32 (fl64 (fl64 (rnd (3 * i + 1) - 0.5) * 400))
      \<and> fl32 (fl64 (fl64 (rnd (3 * i + 1) - 0.5) * 400)) \<le> 400 / 2"
    by (rule stored_centred_bounds [OF y]) (simp_all add: fl64_consts fl32_consts)
  then have py: "- 200 \<le> vy (position (attributes_position (StarField rnd)) i)
          \<and> vy (position (attributes_position (StarField rnd)) i) \<le> 200"
    by (simp add: StarField_def position_positions [OF i])
  from stored_depth_bounds [OF z]
  have pz: "- 600 \<le> vz (position (attributes_position (StarField rnd)) i)
          \<and> vz (position (attributes_position (StarField rnd)) i) \<le> 0"
    by (simp add: StarField_def position_positions [OF i])
  from stored_jitter_bounds [OF j]
  have jit: "0 \<le> attributes_aRandom (StarField rnd) ! i
          \<and> attributes_aRandom (StarField rnd) ! i \<le> 1"
    by (simp add: StarField_def randoms_nth [OF i])
  from len px py pz jit count_def StarField_useFrame_arrays show ?thesis by blast
qed

theorem C9_particle_creation_witness:
  "(\<forall>k. 0 \<le> (\<lambda>k. 1 / 2 :: real) k \<and> (\<lambda>k. 1 / 2 :: real) k < 1) \<and> (7::nat) < 4000
   \<and> length (attributes_position (StarField (\<lambda>k. 1 / 2))) = 12000
   \<and> - 600 \<le> vz (position (attributes_position (StarField (\<lambda>k. 1 / 2))) 7)
   \<and> vz (position (attributes_position (StarField (\<lambda>k. 1 / 2))) 7) \<le> 0
   \<and> attributes_aRandom (StarField (\<lambda>k. 1 / 2)) ! 7 \<le> 1"
proof -
  have h1: "\<forall>k. 0 \<le> (\<lambda>k. 1 / 2 :: real) k \<and> (\<lambda>k. 1 / 2 :: real) k < 1" by simp
  have h2: "(7::nat) < 4000" by simp
  from C9_particle_creation [OF h1 h2] h1 h2 show ?thesis by simp
qed

subsection \<open>Full cycle\<close>







end
